theory Spec2Isabelle
  imports Complex_Main
begin

section \<open>JavaScript numbers\<close>

text \<open>
  \<^verbatim>\<open>popup.js\<close> computes with JavaScript numbers. They are modelled as the
  extended reals of IEEE 754 without rounding: a finite value is an exact real, and the
  three special values \<open>NaN\<close>, \<open>+Infinity\<close> and \<open>-Infinity\<close> are kept, because the
  code can produce them (\<open>0 / 0\<close>, \<open>Math.log10(0)\<close>) and the analyser reports a
  silent bin as \<open>-Infinity\<close> decibels. A zero is always the positive zero: the only
  divisors of the code that can vanish are \<open>Math.log10(1)\<close> and a difference
  \<open>x - x\<close>, both \<open>+0\<close>.

  The code computes with doubles, which round. What is stated below about a finite
  result is therefore either in terms of the operations themselves (\<open>js_add\<close>,
  \<open>js_mul\<close>, ...), or an order or a bound, which rounding to nearest keeps, or a value
  that the doubles give exactly (a product or quotient by a power of two, a quotient
  \<open>x / x\<close>, a difference \<open>x - 0\<close>).
\<close>

datatype jsnum = NaN | NegInf | Fin real | PosInf

fun js_neg :: "jsnum \<Rightarrow> jsnum" where
  "js_neg NaN = NaN"
| "js_neg NegInf = PosInf"
| "js_neg PosInf = NegInf"
| "js_neg (Fin a) = Fin (- a)"

fun js_add :: "jsnum \<Rightarrow> jsnum \<Rightarrow> jsnum" where
  "js_add NaN _ = NaN"
| "js_add _ NaN = NaN"
| "js_add (Fin a) (Fin b) = Fin (a + b)"
| "js_add PosInf NegInf = NaN"
| "js_add NegInf PosInf = NaN"
| "js_add PosInf _ = PosInf"
| "js_add NegInf _ = NegInf"
| "js_add (Fin a) b = b"

definition js_sub :: "jsnum \<Rightarrow> jsnum \<Rightarrow> jsnum" where
  "js_sub a b = js_add a (js_neg b)"

text \<open>The sign of an infinite product or quotient: \<open>True\<close> is positive.\<close>

fun js_pos :: "jsnum \<Rightarrow> bool" where
  "js_pos PosInf = True"
| "js_pos (Fin a) = (0 \<le> a)"
| "js_pos _ = False"

definition js_inf :: "bool \<Rightarrow> jsnum" where
  "js_inf positive = (if positive then PosInf else NegInf)"

fun js_mul :: "jsnum \<Rightarrow> jsnum \<Rightarrow> jsnum" where
  "js_mul NaN _ = NaN"
| "js_mul _ NaN = NaN"
| "js_mul (Fin a) (Fin b) = Fin (a * b)"
| "js_mul (Fin a) b = (if a = 0 then NaN else js_inf (js_pos (Fin a) = js_pos b))"
| "js_mul a (Fin b) = (if b = 0 then NaN else js_inf (js_pos a = js_pos (Fin b)))"
| "js_mul a b = js_inf (js_pos a = js_pos b)"

fun js_div :: "jsnum \<Rightarrow> jsnum \<Rightarrow> jsnum" where
  "js_div NaN _ = NaN"
| "js_div _ NaN = NaN"
| "js_div (Fin a) (Fin b) =
     (if b = 0 then (if a = 0 then NaN else js_inf (0 < a)) else Fin (a / b))"
| "js_div (Fin a) b = Fin 0"
| "js_div a (Fin b) = js_inf (js_pos a = js_pos (Fin b))"
| "js_div a b = NaN"

text \<open>\<^verbatim>\<open>Math.log10\<close>.\<close>

fun js_log10 :: "jsnum \<Rightarrow> jsnum" where
  "js_log10 NaN = NaN"
| "js_log10 NegInf = NaN"
| "js_log10 PosInf = PosInf"
| "js_log10 (Fin a) = (if a < 0 then NaN else if a = 0 then NegInf else Fin (log 10 a))"

text \<open>The comparison \<^verbatim>\<open><=\<close>: false as soon as an operand is \<open>NaN\<close>.\<close>

fun js_le :: "jsnum \<Rightarrow> jsnum \<Rightarrow> bool" where
  "js_le NaN _ = False"
| "js_le _ NaN = False"
| "js_le NegInf _ = True"
| "js_le _ PosInf = True"
| "js_le (Fin a) (Fin b) = (a \<le> b)"
| "js_le _ _ = False"

text \<open>\<^verbatim>\<open>Math.min\<close> and \<^verbatim>\<open>Math.max\<close> of two arguments: \<open>NaN\<close> is contagious.\<close>

definition js_min :: "jsnum \<Rightarrow> jsnum \<Rightarrow> jsnum" where
  "js_min a b = (if a = NaN \<or> b = NaN then NaN else if js_le a b then a else b)"

definition js_max :: "jsnum \<Rightarrow> jsnum \<Rightarrow> jsnum" where
  "js_max a b = (if a = NaN \<or> b = NaN then NaN else if js_le a b then b else a)"

section \<open>The spectrum mappings of \<^verbatim>\<open>startCapture\<close>\<close>

text \<open>
  \<^verbatim>\<open>const logWidth = Math.log10(freqData.length);\<close>
  \<^verbatim>\<open>const logX = (bin) => (Math.log10(bin + 1) / logWidth) * specWidth;\<close>
  \<open>logWidth\<close> is computed once per session; \<open>specWidth\<close> is the module variable,
  read at each call.
\<close>

definition logWidth :: "nat \<Rightarrow> jsnum" where
  "logWidth freqLen = js_log10 (Fin (real freqLen))"

definition logX :: "jsnum \<Rightarrow> jsnum \<Rightarrow> nat \<Rightarrow> jsnum" where
  "logX lw specW bin = js_mul (js_div (js_log10 (Fin (real bin + 1))) lw) specW"

text \<open>
  \<^verbatim>\<open>const dbRange = analyser.maxDecibels - analyser.minDecibels;\<close>
  \<^verbatim>\<open>const mapY = (db) => {\<close>
  \<^verbatim>\<open>  const n = Math.min(1, Math.max(0, (db - analyser.minDecibels) / dbRange));\<close>
  \<^verbatim>\<open>  return specHeight - n * specHeight; };\<close>
  The local \<open>n\<close> is \<open>mapY_n\<close>.
\<close>

definition dbRange :: "jsnum \<Rightarrow> jsnum \<Rightarrow> jsnum" where
  "dbRange minDb maxDb = js_sub maxDb minDb"

definition mapY_n :: "jsnum \<Rightarrow> jsnum \<Rightarrow> jsnum \<Rightarrow> jsnum" where
  "mapY_n minDb rng db = js_min (Fin 1) (js_max (Fin 0) (js_div (js_sub db minDb) rng))"

definition mapY :: "jsnum \<Rightarrow> jsnum \<Rightarrow> jsnum \<Rightarrow> jsnum \<Rightarrow> jsnum" where
  "mapY minDb rng specH db =
     (let n = mapY_n minDb rng db in js_sub specH (js_mul n specH))"

section \<open>The page and its collaborators\<close>

text \<open>
  The two canvases, and the calls the code makes on a 2D context. A gradient is logged
  with the fill style it becomes: the four arguments of \<^verbatim>\<open>createLinearGradient\<close> and
  the colour stops added to it.
\<close>

datatype canvas = SpecCanvas | WaveCanvas

datatype ctx_call =
    ClearRect jsnum jsnum jsnum jsnum
  | BeginPath
  | MoveTo jsnum jsnum
  | QuadraticCurveTo jsnum jsnum jsnum jsnum
  | LineTo jsnum jsnum
  | ClosePath
  | FillStyleGradient jsnum jsnum jsnum jsnum "(jsnum \<times> string) list"
  | Fill
  | StrokeStyle string
  | LineWidth jsnum
  | Stroke
  | Scale jsnum jsnum

text \<open>
  A value that is thrown or that rejects a promise: \<open>Undefined\<close> (any nullish value),
  or an object whose \<^verbatim>\<open>message\<close> property is the given string, \<open>None\<close> when the
  object has no such property. \<^verbatim>\<open>chrome.runtime.lastError\<close> is such a value too.
\<close>

datatype js_value = Undefined | ErrorObject "string option"

text \<open>\<^verbatim>\<open>e?.message ?? fallback\<close>\<close>

fun message_or :: "js_value \<Rightarrow> string \<Rightarrow> string" where
  "message_or Undefined fallback = fallback"
| "message_or (ErrorObject None) fallback = fallback"
| "message_or (ErrorObject (Some m)) fallback = m"

text \<open>
  A media stream is the list of its tracks; an audio context and an animation frame
  handle are opaque. A handle is never zero (the browser increments its counter before
  it returns it), and objects are truthy, so the tests \<^verbatim>\<open>if (animationId)\<close>,
  \<^verbatim>\<open>if (stream)\<close> and \<^verbatim>\<open>if (audioContext)\<close> are tests against \<^verbatim>\<open>null\<close>.
\<close>

type_synonym media_stream = "nat list"

text \<open>
  What the code does to the outside world, in the order it does it. \<open>DrawEntered\<close>
  is a history entry, not a call: it records the value of \<^verbatim>\<open>isCapturing\<close> at the
  moment an execution of \<^verbatim>\<open>draw\<close> begins.
\<close>

datatype effect =
    Ctx canvas ctx_call
  | SetCanvasWidth canvas jsnum
  | SetCanvasHeight canvas jsnum
  | TabCapture
  | NewAudioContext nat
  | Resume nat
  | CreateMediaStreamSource nat
  | CreateAnalyser nat
  | ConnectAnalyser nat
  | ConnectDestination nat
  | ConsoleError js_value
  | RequestAnimationFrame nat
  | CancelAnimationFrame nat
  | TrackStop nat
  | CloseContext nat
  | DrawEntered bool

record rect =
  r_width :: jsnum
  r_height :: jsnum

text \<open>
  The module variables of \<^verbatim>\<open>popup.js\<close>, the properties of the page's elements that
  it writes, and the part of the browser it talks to: the animation frame callbacks
  that are scheduled and not yet run or cancelled (\<open>rafPending\<close>), the counter handles
  come from, the invocations of \<^verbatim>\<open>startCapture\<close> suspended at each of its two
  \<^verbatim>\<open>await\<close>s, and whether the page has been unloaded.
\<close>

record world =
  specWidth :: jsnum
  specHeight :: jsnum
  waveWidth :: jsnum
  waveHeight :: jsnum
  stream :: "media_stream option"
  audioContext :: "nat option"
  animationId :: "nat option"
  isCapturing :: bool
  statusText :: string
  errHidden :: bool
  errText :: string
  toggleText :: string
  toggleDisabled :: bool
  trace :: "effect list"
  rafCounter :: nat
  rafPending :: "nat list"
  awaitingCapture :: nat
  awaitingResume :: nat
  unloaded :: bool

definition emit :: "effect \<Rightarrow> world \<Rightarrow> world" where
  "emit e w = w\<lparr>trace := trace w @ [e]\<rparr>"

definition emits :: "effect list \<Rightarrow> world \<Rightarrow> world" where
  "emits es w = w\<lparr>trace := trace w @ es\<rparr>"

section \<open>DPI scaling\<close>

text \<open>\<^verbatim>\<open>window.devicePixelRatio || 1\<close>: \<open>None\<close> is \<^verbatim>\<open>undefined\<close>.\<close>

fun dpr_or_1 :: "jsnum option \<Rightarrow> jsnum" where
  "dpr_or_1 None = Fin 1"
| "dpr_or_1 (Some NaN) = Fin 1"
| "dpr_or_1 (Some (Fin a)) = (if a = 0 then Fin 1 else Fin a)"
| "dpr_or_1 (Some d) = d"

text \<open>
  \<^verbatim>\<open>setupCanvas(canvas)\<close>, given the layout box and the device pixel ratio it
  reads; it returns the box.
\<close>

definition setupCanvas :: "canvas \<Rightarrow> rect \<Rightarrow> jsnum option \<Rightarrow> world \<Rightarrow> rect \<times> world" where
  "setupCanvas cv box devicePixelRatio w =
     (let dpr = dpr_or_1 devicePixelRatio;
          w1 = emit (SetCanvasWidth cv (js_mul (r_width box) dpr)) w;
          w2 = emit (SetCanvasHeight cv (js_mul (r_height box) dpr)) w1;
          w3 = emit (Ctx cv (Scale dpr dpr)) w2
      in (box, w3))"

definition initCanvases :: "rect \<Rightarrow> rect \<Rightarrow> jsnum option \<Rightarrow> world \<Rightarrow> world" where
  "initCanvases specBox waveBox devicePixelRatio w =
     (let (spec, w1) = setupCanvas SpecCanvas specBox devicePixelRatio w;
          (wave, w2) = setupCanvas WaveCanvas waveBox devicePixelRatio w1
      in w2\<lparr>specWidth := r_width spec, specHeight := r_height spec,
            waveWidth := r_width wave, waveHeight := r_height wave\<rparr>)"

text \<open>
  The two assignments are more than a resize. By the HTML Standard, when the width or
  the height of a canvas is set its bitmap is cleared to transparent black and its
  context is reset to its default state, also when the value does not change. So what
  a canvas shows at any moment is what the calls made on its context since the last
  such assignment paint on a blank bitmap: \<open>surface\<close>, read off the log.
\<close>

fun paint :: "canvas \<Rightarrow> ctx_call list \<Rightarrow> effect \<Rightarrow> ctx_call list" where
  "paint cv shown (SetCanvasWidth c v) = (if c = cv then [] else shown)"
| "paint cv shown (SetCanvasHeight c v) = (if c = cv then [] else shown)"
| "paint cv shown (Ctx c call) = (if c = cv then shown @ [call] else shown)"
| "paint cv shown _ = shown"

definition surface :: "canvas \<Rightarrow> world \<Rightarrow> ctx_call list" where
  "surface cv w = foldl (paint cv) [] (trace w)"

section \<open>Helpers\<close>

definition setStatus :: "string \<Rightarrow> world \<Rightarrow> world" where
  "setStatus text w = w\<lparr>statusText := text\<rparr>"

definition showError :: "string \<Rightarrow> world \<Rightarrow> world" where
  "showError msg w = setStatus ''Error'' (w\<lparr>errHidden := False, errText := msg\<rparr>)"

definition clearError :: "world \<Rightarrow> world" where
  "clearError w = w\<lparr>errHidden := True, errText := []\<rparr>"

definition clearCanvases :: "world \<Rightarrow> world" where
  "clearCanvases w =
     (let w1 = emit (Ctx SpecCanvas (ClearRect (Fin 0) (Fin 0) (specWidth w) (specHeight w))) w
      in emit (Ctx WaveCanvas (ClearRect (Fin 0) (Fin 0) (waveWidth w1) (waveHeight w1))) w1)"

text \<open>
  \<^verbatim>\<open>captureAudio()\<close> calls \<^verbatim>\<open>chrome.tabCapture.capture\<close>; its callback, run later with
  \<^verbatim>\<open>chrome.runtime.lastError\<close> and the stream \<open>s\<close> (\<open>None\<close> when there is none),
  settles the promise: \<open>Inl\<close> is a rejection.
\<close>

definition captureAudio :: "world \<Rightarrow> world" where
  "captureAudio w = emit TabCapture w"

fun capture_callback :: "js_value \<Rightarrow> media_stream option \<Rightarrow> js_value + media_stream" where
  "capture_callback Undefined None =
     Inl (ErrorObject (Some ''Permission denied or no audio available''))"
| "capture_callback Undefined (Some s) = Inr s"
| "capture_callback err _ = Inl err"

section \<open>The draw loop\<close>

text \<open>
  The constants \<^verbatim>\<open>draw\<close>, \<^verbatim>\<open>logX\<close> and \<^verbatim>\<open>mapY\<close> close over: the lengths of
  \<^verbatim>\<open>freqData\<close> and \<^verbatim>\<open>timeData\<close>, \<^verbatim>\<open>logWidth\<close>, \<^verbatim>\<open>analyser.minDecibels\<close> and
  \<^verbatim>\<open>dbRange\<close>.
\<close>

record session =
  freqLen :: nat
  timeLen :: nat
  lw :: jsnum
  minDb :: jsnum
  rng :: jsnum

text \<open>
  The analyser as \<^verbatim>\<open>startCapture\<close> configures it. \<^verbatim>\<open>frequencyBinCount\<close> is the
  Web Audio attribute: half the FFT size.
\<close>

definition fftSize :: nat where
  "fftSize = 2048"

definition frequencyBinCount :: nat where
  "frequencyBinCount = fftSize div 2"

definition minDecibels :: jsnum where
  "minDecibels = Fin (- 90)"

definition maxDecibels :: jsnum where
  "maxDecibels = Fin (- 10)"

definition new_session :: session where
  "new_session =
     \<lparr>freqLen = frequencyBinCount, timeLen = fftSize, lw = logWidth frequencyBinCount,
      minDb = minDecibels, rng = dbRange minDecibels maxDecibels\<rparr>"

text \<open>
  What the analyser holds when a frame is drawn: \<^verbatim>\<open>getFloatFrequencyData\<close> and
  \<^verbatim>\<open>getFloatTimeDomainData\<close> copy it into the two buffers, so element \<open>i\<close> of a buffer
  is the value at \<open>i\<close>, for \<open>i\<close> below the buffer's length.
\<close>

record frame_data =
  freqBins :: "nat \<Rightarrow> jsnum"
  timeSamples :: "nat \<Rightarrow> jsnum"

definition BINS_PER_BUCKET :: nat where
  "BINS_PER_BUCKET = 8"

definition BUCKETS :: "nat \<Rightarrow> real" where
  "BUCKETS len = real len / real BINS_PER_BUCKET"

text \<open>
  \<^verbatim>\<open>freqData[i]\<close> as a summand: past the end of the array it is \<^verbatim>\<open>undefined\<close>, and
  adding \<^verbatim>\<open>undefined\<close> gives \<open>NaN\<close>.
\<close>

definition freqData :: "session \<Rightarrow> frame_data \<Rightarrow> nat \<Rightarrow> jsnum" where
  "freqData ss fd i = (if i < freqLen ss then freqBins fd i else NaN)"

text \<open>
  \<^verbatim>\<open>sum = 0; for (let j = 0; j < BINS_PER_BUCKET; j++) sum += freqData[start + j];\<close>
  \<^verbatim>\<open>avg = sum / BINS_PER_BUCKET;\<close>
\<close>

definition bucket_avg :: "session \<Rightarrow> frame_data \<Rightarrow> nat \<Rightarrow> jsnum" where
  "bucket_avg ss fd start =
     js_div (foldl (\<lambda>sum j. js_add sum (freqData ss fd (start + j))) (Fin 0) [0..<BINS_PER_BUCKET])
       (Fin (real BINS_PER_BUCKET))"

text \<open>\<^verbatim>\<open>for (let b = 1; b < BUCKETS; b++) { ... }\<close>, from \<open>b\<close> on.\<close>

function spectrum_loop ::
  "session \<Rightarrow> frame_data \<Rightarrow> jsnum \<Rightarrow> jsnum \<Rightarrow> nat \<Rightarrow> jsnum \<Rightarrow> jsnum \<Rightarrow> ctx_call list" where
  "spectrum_loop ss fd specW specH b px py =
     (if real b < BUCKETS (freqLen ss) then
        (let start = b * BINS_PER_BUCKET;
             avg = bucket_avg ss fd start;
             cx = logX (lw ss) specW start;
             cy = mapY (minDb ss) (rng ss) specH avg;
             midX = js_div (js_add px cx) (Fin 2);
             midY = js_div (js_add py cy) (Fin 2)
         in QuadraticCurveTo px py midX midY # spectrum_loop ss fd specW specH (b + 1) cx cy)
      else [])"
  by pat_completeness auto
termination
  by (relation "measure (\<lambda>(ss, fd, specW, specH, b, px, py). freqLen ss - b)")
     (auto simp: BUCKETS_def BINS_PER_BUCKET_def)

definition spectrum_calls :: "session \<Rightarrow> frame_data \<Rightarrow> jsnum \<Rightarrow> jsnum \<Rightarrow> ctx_call list" where
  "spectrum_calls ss fd specW specH =
     (let py = mapY (minDb ss) (rng ss) specH (bucket_avg ss fd 0)
      in [ClearRect (Fin 0) (Fin 0) specW specH, BeginPath, MoveTo (Fin 0) py]
         @ spectrum_loop ss fd specW specH 1 (Fin 0) py
         @ [LineTo specW specH, LineTo (Fin 0) specH, ClosePath,
            FillStyleGradient (Fin 0) (Fin 0) (Fin 0) specH
              [(Fin 0, ''rgba(0,255,255,0.8)''), (Fin 1, ''rgba(0,0,128,0.1)'')],
            Fill, StrokeStyle ''rgba(255,255,255,0.6)'', LineWidth (Fin 1), Stroke])"

text \<open>
  \<^verbatim>\<open>for (let i = 0; i < timeData.length; i++) { ... x += sliceWidth; }\<close>, from \<open>i\<close> on.
  The sum \<open>x\<close> and the product and difference in \<open>y\<close> round in the code; what is
  proved of them does not rely on their being exact here.
\<close>

function waveform_loop ::
  "(nat \<Rightarrow> jsnum) \<Rightarrow> nat \<Rightarrow> jsnum \<Rightarrow> jsnum \<Rightarrow> nat \<Rightarrow> jsnum \<Rightarrow> ctx_call list" where
  "waveform_loop timeData len sliceWidth mid i x =
     (if i < len then
        (let y = js_sub mid (js_mul (timeData i) mid)
         in (if i = 0 then MoveTo x y else LineTo x y)
            # waveform_loop timeData len sliceWidth mid (i + 1) (js_add x sliceWidth))
      else [])"
  by pat_completeness auto
termination
  by (relation "measure (\<lambda>(timeData, len, sliceWidth, mid, i, x). len - i)") auto

definition waveform_calls :: "session \<Rightarrow> frame_data \<Rightarrow> jsnum \<Rightarrow> jsnum \<Rightarrow> ctx_call list" where
  "waveform_calls ss fd waveW waveH =
     (let sliceWidth = js_div waveW (Fin (real (timeLen ss)));
          mid = js_div waveH (Fin 2)
      in [ClearRect (Fin 0) (Fin 0) waveW waveH, BeginPath]
         @ waveform_loop (timeSamples fd) (timeLen ss) sliceWidth mid 0 (Fin 0)
         @ [StrokeStyle ''#00ff7f'', LineWidth (Fin 1), Stroke])"

text \<open>
  \<^verbatim>\<open>requestAnimationFrame(draw)\<close> and \<^verbatim>\<open>cancelAnimationFrame(id)\<close>, on the browser's
  list of scheduled callbacks.
\<close>

definition requestAnimationFrame :: "world \<Rightarrow> nat \<times> world" where
  "requestAnimationFrame w =
     (let h = rafCounter w + 1
      in (h, emit (RequestAnimationFrame h) (w\<lparr>rafCounter := h, rafPending := rafPending w @ [h]\<rparr>)))"

definition cancelAnimationFrame :: "nat \<Rightarrow> world \<Rightarrow> world" where
  "cancelAnimationFrame h w =
     emit (CancelAnimationFrame h) (w\<lparr>rafPending := removeAll h (rafPending w)\<rparr>)"

text \<open>One execution of \<^verbatim>\<open>draw()\<close>.\<close>

definition draw :: "session \<Rightarrow> frame_data \<Rightarrow> world \<Rightarrow> world" where
  "draw ss fd w =
     (let w0 = emit (DrawEntered (isCapturing w)) w;
          w1 = emits (map (Ctx SpecCanvas) (spectrum_calls ss fd (specWidth w0) (specHeight w0))) w0;
          w2 = emits (map (Ctx WaveCanvas) (waveform_calls ss fd (waveWidth w1) (waveHeight w1))) w1;
          (h, w3) = requestAnimationFrame w2
      in w3\<lparr>animationId := Some h\<rparr>)"

section \<open>Stop and start\<close>

text \<open>
  \<^verbatim>\<open>stopCapture()\<close>. The promise \<^verbatim>\<open>audioContext.close()\<close> returns has the handler
  \<^verbatim>\<open>() => {}\<close> for its rejection: \<open>close_rejected\<close>, which does nothing.
\<close>

definition stopCapture :: "world \<Rightarrow> world" where
  "stopCapture w =
     (let w1 = (case animationId w of
                  Some h \<Rightarrow> (cancelAnimationFrame h w)\<lparr>animationId := None\<rparr>
                | None \<Rightarrow> w);
          w2 = (case stream w1 of
                  Some s \<Rightarrow> (emits (map TrackStop s) w1)\<lparr>stream := None\<rparr>
                | None \<Rightarrow> w1);
          w3 = (case audioContext w2 of
                  Some c \<Rightarrow> (emit (CloseContext c) w2)\<lparr>audioContext := None\<rparr>
                | None \<Rightarrow> w2);
          w4 = clearCanvases w3;
          w5 = w4\<lparr>isCapturing := False\<rparr>;
          w6 = setStatus ''Stopped'' w5
      in w6\<lparr>toggleText := ''Start'', toggleDisabled := False\<rparr>)"

definition close_rejected :: "js_value \<Rightarrow> world \<Rightarrow> world" where
  "close_rejected e w = w"

text \<open>
  \<^verbatim>\<open>startCapture()\<close> is an \<^verbatim>\<open>async\<close> function with two \<^verbatim>\<open>await\<close>s, so it runs in
  three pieces, and other handlers can run between them. \<open>startCapture\<close> is the piece
  that the call itself runs, up to \<^verbatim>\<open>await captureAudio()\<close>.
\<close>

definition startCapture :: "world \<Rightarrow> world" where
  "startCapture w =
     (if isCapturing w then w
      else
        (let w1 = clearError w;
             w2 = setStatus ''Starting...'' w1;
             w3 = w2\<lparr>toggleDisabled := True\<rparr>;
             w4 = captureAudio w3
         in w4\<lparr>awaitingCapture := awaitingCapture w4 + 1\<rparr>))"

text \<open>The \<^verbatim>\<open>catch (e)\<close> block.\<close>

definition catch_block :: "js_value \<Rightarrow> world \<Rightarrow> world" where
  "catch_block e w =
     (let w1 = emit (ConsoleError e) w;
          w2 = showError (message_or e ''Capture failed'') w1;
          w3 = w2\<lparr>toggleDisabled := False\<rparr>
      in stopCapture w3)"

text \<open>
  The second piece runs when the promise of \<^verbatim>\<open>captureAudio()\<close> settles, with
  \<open>settled\<close>; \<open>created\<close> is what \<^verbatim>\<open>new AudioContext()\<close> does then: it throws
  (\<open>Inl\<close>) or returns a context. The piece ends at \<^verbatim>\<open>await audioContext.resume()\<close>.
\<close>

definition startCapture_captured :: "js_value + media_stream \<Rightarrow> js_value + nat \<Rightarrow> world \<Rightarrow> world" where
  "startCapture_captured settled created w =
     (case settled of
        Inl e \<Rightarrow> catch_block e w
      | Inr s \<Rightarrow>
          (let w1 = w\<lparr>stream := Some s\<rparr>
           in case created of
                Inl e \<Rightarrow> catch_block e w1
              | Inr c \<Rightarrow>
                  (let w2 = emit (NewAudioContext c) (w1\<lparr>audioContext := Some c\<rparr>);
                       w3 = emit (Resume c) w2
                   in w3\<lparr>awaitingResume := awaitingResume w3 + 1\<rparr>)))"

text \<open>
  The third piece runs when the promise of \<^verbatim>\<open>resume()\<close> settles: \<open>resumed\<close> is the
  value it rejects with, if it does. \<open>source\<close> is what
  \<^verbatim>\<open>audioContext.createMediaStreamSource(stream)\<close> throws, if it does; when
  \<^verbatim>\<open>audioContext\<close> is \<^verbatim>\<open>null\<close> by then, the call is a \<^verbatim>\<open>TypeError\<close> of the engine.
  \<open>fd\<close> is what the analyser holds for the first frame.
\<close>

definition null_context_error :: js_value where
  "null_context_error =
     ErrorObject (Some ''Cannot read properties of null (reading 'createMediaStreamSource')'')"

definition startCapture_resumed ::
  "js_value option \<Rightarrow> js_value option \<Rightarrow> frame_data \<Rightarrow> world \<Rightarrow> world" where
  "startCapture_resumed resumed source fd w =
     (case resumed of
        Some e \<Rightarrow> catch_block e w
      | None \<Rightarrow>
          (case audioContext w of
             None \<Rightarrow> catch_block null_context_error w
           | Some c \<Rightarrow>
               (case source of
                  Some e \<Rightarrow> catch_block e w
                | None \<Rightarrow>
                    (let w1 = emits [CreateMediaStreamSource c, CreateAnalyser c,
                                     ConnectAnalyser c, ConnectDestination c] w;
                         w2 = draw new_session fd w1;
                         w3 = w2\<lparr>isCapturing := True\<rparr>;
                         w4 = setStatus ''Capturing...'' w3
                     in w4\<lparr>toggleText := ''Stop'', toggleDisabled := False\<rparr>))))"

section \<open>The event handlers and the event loop\<close>

definition toggle_click :: "world \<Rightarrow> world" where
  "toggle_click w = (if isCapturing w then stopCapture w else startCapture w)"

definition on_unload :: "world \<Rightarrow> world" where
  "on_unload w = stopCapture w"

definition on_resize :: "rect \<Rightarrow> rect \<Rightarrow> jsnum option \<Rightarrow> world \<Rightarrow> world" where
  "on_resize specBox waveBox devicePixelRatio w =
     (let w1 = initCanvases specBox waveBox devicePixelRatio w
      in if \<not> isCapturing w1 then clearCanvases w1 else w1)"

text \<open>
  What can happen to the page. The browser dispatches no click to a disabled button,
  runs a scheduled frame callback once and removes it from its list, settles a promise
  only for an invocation that awaits it, and runs nothing after the page is unloaded.
\<close>

datatype event =
    Click
  | Unload
  | Resized rect rect "jsnum option"
  | CaptureSettled js_value "media_stream option" "js_value + nat"
  | ResumeSettled "js_value option" "js_value option" frame_data
  | AnimationFrame nat frame_data
  | CloseRejected js_value

fun step :: "event \<Rightarrow> world \<Rightarrow> world" where
  "step Click w = (if unloaded w \<or> toggleDisabled w then w else toggle_click w)"
| "step Unload w = (if unloaded w then w else (on_unload w)\<lparr>unloaded := True\<rparr>)"
| "step (Resized specBox waveBox dpr) w =
     (if unloaded w then w else on_resize specBox waveBox dpr w)"
| "step (CaptureSettled lastError s created) w =
     (if unloaded w \<or> awaitingCapture w = 0 then w
      else startCapture_captured (capture_callback lastError s) created
             (w\<lparr>awaitingCapture := awaitingCapture w - 1\<rparr>))"
| "step (ResumeSettled resumed source fd) w =
     (if unloaded w \<or> awaitingResume w = 0 then w
      else startCapture_resumed resumed source fd (w\<lparr>awaitingResume := awaitingResume w - 1\<rparr>))"
| "step (AnimationFrame h fd) w =
     (if unloaded w \<or> h \<notin> set (rafPending w) then w
      else draw new_session fd (w\<lparr>rafPending := removeAll h (rafPending w)\<rparr>))"
| "step (CloseRejected e) w = (if unloaded w then w else close_rejected e w)"

text \<open>The events of a list, first to last.\<close>

definition run :: "event list \<Rightarrow> world \<Rightarrow> world" where
  "run evs w = foldl (\<lambda>w ev. step ev w) w evs"

text \<open>
  The page as the last two statements of the script leave it, \<^verbatim>\<open>initCanvases()\<close> and
  \<^verbatim>\<open>setStatus('Idle')\<close>: nothing captured, scheduled or awaited, the button enabled.
\<close>

definition initial :: "world \<Rightarrow> bool" where
  "initial w \<longleftrightarrow>
     stream w = None \<and> audioContext w = None \<and> animationId w = None \<and> \<not> isCapturing w \<and>
     statusText w = ''Idle'' \<and> \<not> toggleDisabled w \<and> rafPending w = [] \<and>
     awaitingCapture w = 0 \<and> awaitingResume w = 0 \<and> \<not> unloaded w"

inductive reachable :: "world \<Rightarrow> bool" where
  reachable_initial: "initial w \<Longrightarrow> reachable w"
| reachable_step: "reachable w \<Longrightarrow> reachable (step ev w)"

text \<open>A page of 300 by 150 pixel canvases at device pixel ratio 2, just loaded.\<close>

definition blank :: world where
  "blank =
     \<lparr>specWidth = Fin 0, specHeight = Fin 0, waveWidth = Fin 0, waveHeight = Fin 0,
      stream = None, audioContext = None, animationId = None, isCapturing = False,
      statusText = [], errHidden = True, errText = [], toggleText = ''Start'',
      toggleDisabled = False, trace = [], rafCounter = 0, rafPending = [],
      awaitingCapture = 0, awaitingResume = 0, unloaded = False\<rparr>"

definition box300 :: rect where
  "box300 = \<lparr>r_width = Fin 300, r_height = Fin 150\<rparr>"

definition world0 :: world where
  "world0 = setStatus ''Idle'' (initCanvases box300 box300 (Some (Fin 2)) blank)"

section \<open>Reading the model\<close>

text \<open>The y coordinate of a point a path call plots.\<close>

fun call_y :: "ctx_call \<Rightarrow> jsnum" where
  "call_y (MoveTo x y) = y"
| "call_y (LineTo x y) = y"
| "call_y _ = NaN"

text \<open>A silent spectrum, and a waveform that starts at 1 and stays at -1.\<close>

definition two_tone :: frame_data where
  "two_tone = \<lparr>freqBins = (\<lambda>i. NegInf), timeSamples = (\<lambda>i. if i = 0 then Fin 1 else Fin (- 1))\<rparr>"

text \<open>What a handler added to the log: the entries of \<open>w'\<close> after those of \<open>w\<close>.\<close>

definition emitted :: "world \<Rightarrow> world \<Rightarrow> effect list" where
  "emitted w w' = drop (length (trace w)) (trace w')"

text \<open>The two \<^verbatim>\<open>clearRect\<close> calls of \<^verbatim>\<open>clearCanvases()\<close>.\<close>

definition clears :: "world \<Rightarrow> effect list" where
  "clears w =
     [Ctx SpecCanvas (ClearRect (Fin 0) (Fin 0) (specWidth w) (specHeight w)),
      Ctx WaveCanvas (ClearRect (Fin 0) (Fin 0) (waveWidth w) (waveHeight w))]"

text \<open>
  The lifecycle state is implicit in the code. It is \<open>Starting\<close> while an invocation of
  \<^verbatim>\<open>startCapture\<close> is suspended at an \<^verbatim>\<open>await\<close>, and \<open>Capturing\<close> while
  \<^verbatim>\<open>isCapturing\<close> is set.
\<close>

definition starting :: "world \<Rightarrow> bool" where
  "starting w \<longleftrightarrow> 0 < awaitingCapture w + awaitingResume w"

text \<open>
  The invariant of the event loop: a scheduled frame is the one \<^verbatim>\<open>animationId\<close>
  names, and there is one only while capturing; at most one invocation of
  \<^verbatim>\<open>startCapture\<close> is suspended, and while one is, the button is disabled, nothing is
  captured and no frame is scheduled.
\<close>

definition frames_owned :: "world \<Rightarrow> bool" where
  "frames_owned w \<longleftrightarrow>
     rafPending w = [] \<or> (isCapturing w \<and> map Some (rafPending w) = [animationId w])"

definition lifecycle_inv :: "world \<Rightarrow> bool" where
  "lifecycle_inv w \<longleftrightarrow>
     frames_owned w \<and> awaitingCapture w + awaitingResume w \<le> 1 \<and>
     (unloaded w \<or>
      (starting w \<longrightarrow> toggleDisabled w \<and> \<not> isCapturing w \<and> rafPending w = []))"

text \<open>
  The raw point of bucket \<open>b\<close>: the values \<^verbatim>\<open>px\<close> and \<^verbatim>\<open>py\<close> have after the
  iteration for \<open>b\<close> (before the loop, for bucket 0).
\<close>

definition point_x :: "session \<Rightarrow> jsnum \<Rightarrow> nat \<Rightarrow> jsnum" where
  "point_x ss specW b = (if b = 0 then Fin 0 else logX (lw ss) specW (b * BINS_PER_BUCKET))"

definition point_y :: "session \<Rightarrow> frame_data \<Rightarrow> jsnum \<Rightarrow> nat \<Rightarrow> jsnum" where
  "point_y ss fd specH b = mapY (minDb ss) (rng ss) specH (bucket_avg ss fd (b * BINS_PER_BUCKET))"

text \<open>
  The value the \<^verbatim>\<open>try\<close> block of \<^verbatim>\<open>startCapture\<close> throws when the event \<open>ev\<close>
  resumes it in \<open>w\<close>, if it throws: the rejection of \<^verbatim>\<open>captureAudio()\<close>, what
  \<^verbatim>\<open>new AudioContext()\<close> throws, the rejection of \<^verbatim>\<open>resume()\<close>, or what building the
  graph throws.
\<close>

fun start_failure :: "event \<Rightarrow> world \<Rightarrow> js_value option" where
  "start_failure (CaptureSettled lastError s created) w =
     (if awaitingCapture w = 0 then None
      else case capture_callback lastError s of
             Inl e \<Rightarrow> Some e
           | Inr _ \<Rightarrow> (case created of Inl e \<Rightarrow> Some e | Inr _ \<Rightarrow> None))"
| "start_failure (ResumeSettled resumed source fd) w =
     (if awaitingResume w = 0 then None
      else case resumed of
             Some e \<Rightarrow> Some e
           | None \<Rightarrow> (case audioContext w of None \<Rightarrow> Some null_context_error | Some _ \<Rightarrow> source))"
| "start_failure _ w = None"

text \<open>
  The page as the \<^verbatim>\<open>catch\<close> block finds it when the event \<open>ev\<close> makes the
  \<^verbatim>\<open>try\<close> block throw: the invocation is no longer suspended, and \<^verbatim>\<open>stream\<close> is
  assigned if the capture had succeeded.
\<close>

fun catch_entry :: "event \<Rightarrow> world \<Rightarrow> world" where
  "catch_entry (CaptureSettled lastError s created) w =
     (case capture_callback lastError s of
        Inl e \<Rightarrow> w\<lparr>awaitingCapture := awaitingCapture w - 1\<rparr>
      | Inr ms \<Rightarrow> w\<lparr>awaitingCapture := awaitingCapture w - 1, stream := Some ms\<rparr>)"
| "catch_entry (ResumeSettled resumed source fd) w = w\<lparr>awaitingResume := awaitingResume w - 1\<rparr>"
| "catch_entry _ w = w"

text \<open>
  A page on which nothing is captured, scheduled or awaited, the button is enabled, and
  the error box shows \<open>msg\<close>.
\<close>

definition settled :: "string \<Rightarrow> world \<Rightarrow> bool" where
  "settled msg w \<longleftrightarrow>
     \<not> errHidden w \<and> errText w = msg \<and> \<not> toggleDisabled w \<and> \<not> isCapturing w \<and>
     awaitingCapture w = 0 \<and> awaitingResume w = 0 \<and> rafPending w = []"

text \<open>
  Three pages that started as \<open>world0\<close>. In \<open>granted0\<close> the button was clicked and the
  tab's stream (one track, 7) was granted, and the audio context 1 is being resumed;
  \<open>capturing0\<close> is \<open>granted0\<close> once the context has resumed and the first frame is
  drawn; in \<open>denied0\<close> the button was clicked and the capture was refused with a
  message. \<open>box600\<close> is a layout box twice as wide as \<open>box300\<close>.
\<close>

definition granted0 :: world where
  "granted0 = run [Click, CaptureSettled Undefined (Some [7]) (Inr 1)] world0"

definition capturing0 :: world where
  "capturing0 = step (ResumeSettled None None two_tone) granted0"

definition denied0 :: world where
  "denied0 = run [Click, CaptureSettled (ErrorObject (Some ''Tab capture denied'')) None (Inr 1)] world0"

definition box600 :: rect where
  "box600 = \<lparr>r_width = Fin 600, r_height = Fin 150\<rparr>"

declare waveform_loop.simps [simp del] spectrum_loop.simps [simp del]

section \<open>The log-frequency mapping\<close>

lemma log10_pos: "1 < N \<Longrightarrow> 0 < log 10 (real N)"
  by simp

lemma self_ratio: "0 < (x::real) \<Longrightarrow> x / x * W = W"
  by simp

lemma logX_Fin:
  assumes "1 < N"
  shows "logX (logWidth N) (Fin W) i = Fin (log 10 (real i + 1) / log 10 (real N) * W)"
proof -
  have "log 10 (real N) \<noteq> 0" using log10_pos[OF assms] by simp
  moreover have "real N \<noteq> 0" "\<not> real N < 0" using assms by simp_all
  ultimately show ?thesis by (simp add: logX_def logWidth_def)
qed

lemma logX_last:
  assumes "1 < N"
  shows "logX (logWidth N) (Fin W) (N - 1) = Fin W"
proof -
  have e: "real (N - 1) + 1 = real N" using assms by simp
  show ?thesis unfolding logX_Fin[OF assms] e
    using self_ratio[OF log10_pos[OF assms]] by simp
qed

lemma logX_first:
  assumes "1 < N"
  shows "logX (logWidth N) (Fin W) 0 = Fin 0"
  unfolding logX_Fin[OF assms] by simp

lemma logX_mono:
  assumes "0 < W" "1 < N" "i \<le> j"
  shows "js_le (logX (logWidth N) (Fin W) i) (logX (logWidth N) (Fin W) j)"
proof -
  define L where "L = log 10 (real N)"
  have lN: "0 < L" unfolding L_def using assms(2) by (rule log10_pos)
  have "log 10 (real i + 1) \<le> log 10 (real j + 1)" using assms by simp
  then have "log 10 (real i + 1) / L \<le> log 10 (real j + 1) / L"
    using lN by (simp add: divide_right_mono)
  then have m: "log 10 (real i + 1) / L * W \<le> log 10 (real j + 1) / L * W"
    by (rule mult_right_mono) (use assms(1) in simp)
  show ?thesis unfolding logX_Fin[OF assms(2)] js_le.simps L_def[symmetric]
    by (rule m)
qed

text \<open>
  C6, as the code has it. With a single bin the divisor \<^verbatim>\<open>Math.log10(1)\<close> is zero
  and bin 0, which is also bin \<open>N - 1\<close>, maps to \<open>0 / 0 * W\<close>, that is \<open>NaN\<close>: it is
  neither at least 0 nor at most \<open>W\<close>.
\<close>

theorem logX_single_bin_counterexample:
  "logX (logWidth 1) (Fin 300) 0 = NaN
   \<and> \<not> js_le (Fin 0) (logX (logWidth 1) (Fin 300) 0)
   \<and> \<not> js_le (logX (logWidth 1) (Fin 300) (1 - 1)) (Fin 300)"
  by (simp add: logX_def logWidth_def)

text \<open>
  C6, amended: for every logical width \<open>W > 0\<close> and every bin count \<open>N > 1\<close>, the
  mapping \<open>x(bin) = log10(bin + 1) / log10(N) * W\<close> is non-decreasing in the bin
  index, maps bin 0 to a value at least 0 (to 0 itself) and bin \<open>N - 1\<close> to a value
  at most \<open>W\<close> (to \<open>W\<close> itself); for \<open>W = 300\<close> and \<open>N = 1024\<close>, bin 0 maps to 0 and
  bin 1023 to 300.
\<close>

theorem logX_monotone_bounded:
  assumes "0 < W" "1 < N" "i \<le> j"
  shows "js_le (logX (logWidth N) (Fin W) i) (logX (logWidth N) (Fin W) j)
   \<and> js_le (Fin 0) (logX (logWidth N) (Fin W) 0)
   \<and> js_le (logX (logWidth N) (Fin W) (N - 1)) (Fin W)
   \<and> logX (logWidth 1024) (Fin 300) 0 = Fin 0
   \<and> logX (logWidth 1024) (Fin 300) 1023 = Fin 300"
proof (intro conjI)
  show "js_le (logX (logWidth N) (Fin W) i) (logX (logWidth N) (Fin W) j)"
    using assms by (rule logX_mono)
  show "js_le (Fin 0) (logX (logWidth N) (Fin W) 0)"
    unfolding logX_first[OF assms(2)] by simp
  show "js_le (logX (logWidth N) (Fin W) (N - 1)) (Fin W)"
    unfolding logX_last[OF assms(2)] by simp
  show "logX (logWidth 1024) (Fin 300) 0 = Fin 0"
    by (rule logX_first) simp
  have "logX (logWidth 1024) (Fin 300) (1024 - 1) = Fin 300"
    by (rule logX_last) simp
  then show "logX (logWidth 1024) (Fin 300) 1023 = Fin 300"
    by simp
qed

theorem logX_monotone_bounded_witness:
  "(0::real) < 300 \<and> (1::nat) < 1024 \<and> (8::nat) \<le> 16
   \<and> js_le (logX (logWidth 1024) (Fin 300) 8) (logX (logWidth 1024) (Fin 300) 16)
   \<and> js_le (Fin 0) (logX (logWidth 1024) (Fin 300) 0)
   \<and> js_le (logX (logWidth 1024) (Fin 300) (1024 - 1)) (Fin 300)"
  using logX_monotone_bounded [of 300 1024 8 16] by simp

section \<open>The decibel mapping\<close>

lemma mapY_n_Fin:
  "lo < hi \<Longrightarrow>
   mapY_n (Fin lo) (dbRange (Fin lo) (Fin hi)) (Fin d) = Fin (min 1 (max 0 ((d - lo) / (hi - lo))))"
  by (auto simp add: mapY_n_def dbRange_def js_sub_def js_min_def js_max_def min_def max_def)

lemma mapY_n_PosInf: "lo < hi \<Longrightarrow> mapY_n (Fin lo) (dbRange (Fin lo) (Fin hi)) PosInf = Fin 1"
  by (auto simp add: mapY_n_def dbRange_def js_sub_def js_min_def js_max_def js_inf_def)

lemma mapY_n_NegInf: "lo < hi \<Longrightarrow> mapY_n (Fin lo) (dbRange (Fin lo) (Fin hi)) NegInf = Fin 0"
  by (auto simp add: mapY_n_def dbRange_def js_sub_def js_min_def js_max_def js_inf_def)

lemma clamp_mono:
  assumes "lo < hi" "d \<le> d'"
  shows "min 1 (max 0 ((d - lo) / (hi - lo))) \<le> min 1 (max 0 ((d' - lo) / (hi - lo :: real)))"
proof -
  have "(d - lo) / (hi - lo) \<le> (d' - lo) / (hi - lo)"
    using assms by (simp add: divide_right_mono)
  then show ?thesis by (simp add: min_def max_def)
qed

lemma mapY_n_mono:
  assumes "lo < hi" "d \<noteq> NaN" "d' \<noteq> NaN" "js_le d d'"
  shows "\<exists>n n'. mapY_n (Fin lo) (dbRange (Fin lo) (Fin hi)) d = Fin n
            \<and> mapY_n (Fin lo) (dbRange (Fin lo) (Fin hi)) d' = Fin n'
            \<and> 0 \<le> n \<and> n \<le> n' \<and> n' \<le> 1"
proof (cases d)
  case NaN
  then show ?thesis using assms by simp
next
  case NegInf
  show ?thesis
  proof (cases d')
    case (Fin b)
    then show ?thesis using NegInf assms(1) by (simp add: mapY_n_NegInf mapY_n_Fin)
  qed (use NegInf assms in \<open>simp_all add: mapY_n_NegInf mapY_n_PosInf\<close>)
next
  case (Fin a)
  show ?thesis
  proof (cases d')
    case (Fin b)
    then have "a \<le> b" using \<open>d = Fin a\<close> assms(4) by simp
    from clamp_mono[OF assms(1) this] show ?thesis
      using Fin \<open>d = Fin a\<close> assms(1) by (simp add: mapY_n_Fin)
  qed (use Fin assms in \<open>simp_all add: mapY_n_Fin mapY_n_PosInf\<close>)
next
  case PosInf
  then show ?thesis using assms by (cases d') (simp_all add: mapY_n_PosInf)
qed

lemma mapY_of_n:
  "mapY_n a r d = Fin n \<Longrightarrow> mapY a r (Fin H) d = Fin (H - n * H)"
  by (simp add: mapY_def js_sub_def)

lemma mapY_n_low:
  assumes "lo < hi" "d \<noteq> NaN" "js_le d (Fin lo)"
  shows "mapY_n (Fin lo) (dbRange (Fin lo) (Fin hi)) d = Fin 0"
proof (cases d)
  case (Fin x)
  then have "x \<le> lo" using assms(3) by simp
  then have "(x - lo) / (hi - lo) \<le> 0" using assms(1) by (simp add: divide_le_0_iff)
  then show ?thesis using Fin assms(1) by (simp add: mapY_n_Fin)
qed (use assms in \<open>simp_all add: mapY_n_NegInf\<close>)

lemma mapY_n_high:
  assumes "lo < hi" "d \<noteq> NaN" "js_le (Fin hi) d"
  shows "mapY_n (Fin lo) (dbRange (Fin lo) (Fin hi)) d = Fin 1"
proof (cases d)
  case (Fin x)
  then have "hi \<le> x" using assms(3) by simp
  then have "1 \<le> (x - lo) / (hi - lo)" using assms(1) by (simp add: le_divide_eq)
  then show ?thesis using Fin assms(1) by (simp add: mapY_n_Fin)
qed (use assms in \<open>simp_all add: mapY_n_PosInf\<close>)

text \<open>
  C7: for every decibel value \<open>d\<close> (a number or an infinity, not \<open>NaN\<close>), \<open>mapY\<close>
  normalises \<open>d\<close> into \<open>[0, 1]\<close> over the range \<open>[minDecibels, maxDecibels]\<close>, clamping,
  and inverts: \<open>n\<close> is the quotient of \<open>d - minDecibels\<close> by the width of the range,
  cut to \<open>[0, 1]\<close> by \<^verbatim>\<open>Math.max\<close> and \<^verbatim>\<open>Math.min\<close>, and the result is \<open>specHeight\<close>
  minus \<open>n\<close> times \<open>specHeight\<close>. At and below the lower end of the range \<open>n\<close> is 0
  and the result the full height, at and above the upper end \<open>n\<close> is 1 and the result
  0; \<open>n\<close> does not decrease and the result does not increase when \<open>d\<close> grows, and
  the result lies in \<open>[0, specHeight]\<close>. With the configured range from -90 to -10,
  the values -90, -70, -50, -30 and -10 normalise to 0, 0.25, 0.5, 0.75 and 1, and -50
  maps to half the height.
\<close>

theorem mapY_clamped_antitone:
  assumes "lo < hi" "0 \<le> H" "d \<noteq> NaN" "d' \<noteq> NaN" "js_le d d'"
  shows "js_le (mapY (Fin lo) (dbRange (Fin lo) (Fin hi)) (Fin H) d')
               (mapY (Fin lo) (dbRange (Fin lo) (Fin hi)) (Fin H) d)
       \<and> js_le (Fin 0) (mapY_n (Fin lo) (dbRange (Fin lo) (Fin hi)) d)
       \<and> js_le (mapY_n (Fin lo) (dbRange (Fin lo) (Fin hi)) d) (Fin 1)
       \<and> js_le (Fin 0) (mapY (Fin lo) (dbRange (Fin lo) (Fin hi)) (Fin H) d)
       \<and> js_le (mapY (Fin lo) (dbRange (Fin lo) (Fin hi)) (Fin H) d) (Fin H)
       \<and> mapY_n minDecibels (dbRange minDecibels maxDecibels) (Fin (- 50)) = Fin (1 / 2)
       \<and> mapY minDecibels (dbRange minDecibels maxDecibels) (Fin H) (Fin (- 50)) = Fin (H / 2)
       \<and> mapY_n a r x = js_min (Fin 1) (js_max (Fin 0) (js_div (js_sub x a) r))
       \<and> dbRange a b = js_sub b a
       \<and> mapY a r h x = js_sub h (js_mul (mapY_n a r x) h)
       \<and> js_le (mapY_n (Fin lo) (dbRange (Fin lo) (Fin hi)) d)
               (mapY_n (Fin lo) (dbRange (Fin lo) (Fin hi)) d')
       \<and> (js_le d (Fin lo) \<longrightarrow>
            mapY_n (Fin lo) (dbRange (Fin lo) (Fin hi)) d = Fin 0
            \<and> mapY (Fin lo) (dbRange (Fin lo) (Fin hi)) (Fin H) d = Fin H)
       \<and> (js_le (Fin hi) d \<longrightarrow>
            mapY_n (Fin lo) (dbRange (Fin lo) (Fin hi)) d = Fin 1
            \<and> mapY (Fin lo) (dbRange (Fin lo) (Fin hi)) (Fin H) d = Fin 0)
       \<and> mapY_n minDecibels (dbRange minDecibels maxDecibels) (Fin (- 90)) = Fin 0
       \<and> mapY_n minDecibels (dbRange minDecibels maxDecibels) (Fin (- 70)) = Fin (1 / 4)
       \<and> mapY_n minDecibels (dbRange minDecibels maxDecibels) (Fin (- 30)) = Fin (3 / 4)
       \<and> mapY_n minDecibels (dbRange minDecibels maxDecibels) (Fin (- 10)) = Fin 1
       \<and> mapY minDecibels (dbRange minDecibels maxDecibels) (Fin H) NegInf = Fin H
       \<and> mapY minDecibels (dbRange minDecibels maxDecibels) (Fin H) (Fin (- 90)) = Fin H
       \<and> mapY minDecibels (dbRange minDecibels maxDecibels) (Fin H) (Fin (- 10)) = Fin 0"
proof -
  obtain n n' where n: "mapY_n (Fin lo) (dbRange (Fin lo) (Fin hi)) d = Fin n"
    and n': "mapY_n (Fin lo) (dbRange (Fin lo) (Fin hi)) d' = Fin n'"
    and b: "0 \<le> n" "n \<le> n'" "n' \<le> 1"
    using mapY_n_mono[OF assms(1,3,4,5)] by blast
  have m: "n * H \<le> n' * H" using b(2) assms(2) by (rule mult_right_mono)
  have u: "n * H \<le> 1 * H" by (rule mult_right_mono) (use b assms(2) in simp_all)
  have l: "0 \<le> n * H" using b(1) assms(2) by simp
  have half: "mapY_n minDecibels (dbRange minDecibels maxDecibels) (Fin (- 50)) = Fin (1 / 2)"
    unfolding minDecibels_def maxDecibels_def by (subst mapY_n_Fin) simp_all
  have "mapY minDecibels (dbRange minDecibels maxDecibels) (Fin H) (Fin (- 50)) = Fin (H - 1 / 2 * H)"
    using half by (rule mapY_of_n)
  then have y: "mapY minDecibels (dbRange minDecibels maxDecibels) (Fin H) (Fin (- 50)) = Fin (H / 2)"
    by simp
  have old: "js_le (mapY (Fin lo) (dbRange (Fin lo) (Fin hi)) (Fin H) d')
               (mapY (Fin lo) (dbRange (Fin lo) (Fin hi)) (Fin H) d)
       \<and> js_le (Fin 0) (mapY_n (Fin lo) (dbRange (Fin lo) (Fin hi)) d)
       \<and> js_le (mapY_n (Fin lo) (dbRange (Fin lo) (Fin hi)) d) (Fin 1)
       \<and> js_le (Fin 0) (mapY (Fin lo) (dbRange (Fin lo) (Fin hi)) (Fin H) d)
       \<and> js_le (mapY (Fin lo) (dbRange (Fin lo) (Fin hi)) (Fin H) d) (Fin H)
       \<and> mapY_n minDecibels (dbRange minDecibels maxDecibels) (Fin (- 50)) = Fin (1 / 2)
       \<and> mapY minDecibels (dbRange minDecibels maxDecibels) (Fin H) (Fin (- 50)) = Fin (H / 2)"
    unfolding mapY_of_n[OF n] mapY_of_n[OF n'] n
    using m u l b half y by simp
  have s: "mapY_n a r x = js_min (Fin 1) (js_max (Fin 0) (js_div (js_sub x a) r))"
    "dbRange a b = js_sub b a"
    "mapY a r h x = js_sub h (js_mul (mapY_n a r x) h)"
    by (simp_all add: mapY_n_def dbRange_def mapY_def Let_def)
  have mono: "js_le (mapY_n (Fin lo) (dbRange (Fin lo) (Fin hi)) d)
               (mapY_n (Fin lo) (dbRange (Fin lo) (Fin hi)) d')"
    unfolding n n' using b by simp
  have low: "js_le d (Fin lo) \<longrightarrow>
            mapY_n (Fin lo) (dbRange (Fin lo) (Fin hi)) d = Fin 0
            \<and> mapY (Fin lo) (dbRange (Fin lo) (Fin hi)) (Fin H) d = Fin H"
    using mapY_n_low[OF assms(1,3)] mapY_of_n[of "Fin lo" _ d 0 H] by simp
  have high: "js_le (Fin hi) d \<longrightarrow>
            mapY_n (Fin lo) (dbRange (Fin lo) (Fin hi)) d = Fin 1
            \<and> mapY (Fin lo) (dbRange (Fin lo) (Fin hi)) (Fin H) d = Fin 0"
    using mapY_n_high[OF assms(1,3)] mapY_of_n[of "Fin lo" _ d 1 H] by simp
  have pts: "mapY_n minDecibels (dbRange minDecibels maxDecibels) (Fin (- 90)) = Fin 0"
    "mapY_n minDecibels (dbRange minDecibels maxDecibels) (Fin (- 70)) = Fin (1 / 4)"
    "mapY_n minDecibels (dbRange minDecibels maxDecibels) (Fin (- 30)) = Fin (3 / 4)"
    "mapY_n minDecibels (dbRange minDecibels maxDecibels) (Fin (- 10)) = Fin 1"
    "mapY_n minDecibels (dbRange minDecibels maxDecibels) NegInf = Fin 0"
    unfolding minDecibels_def maxDecibels_def
    by (simp_all add: mapY_n_Fin mapY_n_NegInf)
  have ys: "mapY minDecibels (dbRange minDecibels maxDecibels) (Fin H) NegInf = Fin H"
    "mapY minDecibels (dbRange minDecibels maxDecibels) (Fin H) (Fin (- 90)) = Fin H"
    "mapY minDecibels (dbRange minDecibels maxDecibels) (Fin H) (Fin (- 10)) = Fin 0"
    using mapY_of_n[OF pts(5), of H] mapY_of_n[OF pts(1), of H] mapY_of_n[OF pts(4), of H]
    by simp_all
  show ?thesis
    using old s mono low high pts(1-4) ys by blast
qed

theorem mapY_clamped_antitone_witness:
  "(- 90 :: real) < - 10 \<and> (0::real) \<le> 150 \<and> NegInf \<noteq> NaN \<and> Fin (- 30) \<noteq> NaN
   \<and> js_le NegInf (Fin (- 30))
   \<and> js_le (mapY (Fin (- 90)) (dbRange (Fin (- 90)) (Fin (- 10))) (Fin 150) (Fin (- 30)))
            (mapY (Fin (- 90)) (dbRange (Fin (- 90)) (Fin (- 10))) (Fin 150) NegInf)
   \<and> js_le (Fin 0) (mapY (Fin (- 90)) (dbRange (Fin (- 90)) (Fin (- 10))) (Fin 150) NegInf)
   \<and> js_le (mapY (Fin (- 90)) (dbRange (Fin (- 90)) (Fin (- 10))) (Fin 150) NegInf) (Fin 150)
   \<and> js_le NegInf (Fin (- 90))
   \<and> mapY (Fin (- 90)) (dbRange (Fin (- 90)) (Fin (- 10))) (Fin 150) NegInf = Fin 150
   \<and> Fin (- 5) \<noteq> NaN \<and> js_le (Fin (- 10)) (Fin (- 5))
   \<and> mapY (Fin (- 90)) (dbRange (Fin (- 90)) (Fin (- 10))) (Fin 150) (Fin (- 5)) = Fin 0"
proof -
  have h: "(- 90 :: real) < - 10" "(0::real) \<le> 150" "NegInf \<noteq> NaN" "Fin (- 30) \<noteq> NaN"
    "js_le NegInf (Fin (- 30))" "js_le NegInf (Fin (- 90))"
    "Fin (- 5) \<noteq> NaN" "js_le (Fin (- 10)) (Fin (- 5))" "js_le (Fin (- 5)) (Fin (- 5))"
    by simp_all
  show ?thesis
    using mapY_clamped_antitone [OF h(1) h(2) h(3) h(4) h(5), where a = NaN and r = NaN and x = NaN and b = NaN and h = NaN]
      mapY_clamped_antitone [OF h(1) h(2) h(7) h(7) h(9), where a = NaN and r = NaN and x = NaN and b = NaN and h = NaN]
      h
    by blast
qed

section \<open>The waveform\<close>

lemma waveform_loop_length:
  "length (waveform_loop t len sw mid i x) = len - i"
proof (induction t len sw mid i x rule: waveform_loop.induct)
  case (1 t len sw mid i x)
  show ?case
  proof (cases "i < len")
    case True
    from "1.IH"[OF True refl] True show ?thesis
      by (subst waveform_loop.simps) (simp add: Let_def)
  next
    case False
    then show ?thesis by (subst waveform_loop.simps) simp
  qed
qed

lemma waveform_loop_nth:
  "i + k < len \<Longrightarrow>
   waveform_loop t len (Fin s) mid i (Fin x) ! k =
     (if i + k = 0 then MoveTo else LineTo) (Fin (x + real k * s)) (js_sub mid (js_mul (t (i + k)) mid))"
proof (induction k arbitrary: i x)
  case 0
  then show ?case by (subst waveform_loop.simps) (simp add: Let_def)
next
  case (Suc k)
  have "waveform_loop t len (Fin s) mid i (Fin x) ! Suc k
        = waveform_loop t len (Fin s) mid (i + 1) (Fin (x + s)) ! k"
    using Suc.prems by (subst waveform_loop.simps) (simp add: Let_def)
  also have "\<dots> = (if (i + 1) + k = 0 then MoveTo else LineTo) (Fin ((x + s) + real k * s))
                     (js_sub mid (js_mul (t ((i + 1) + k)) mid))"
    using Suc.prems by (intro Suc.IH) simp
  finally show ?case by (simp add: algebra_simps)
qed

lemma waveform_calls_nth:
  assumes "i < timeLen ss"
  shows "waveform_calls ss fd (Fin W) (Fin H) ! Suc (Suc i) =
     (if i = 0 then MoveTo else LineTo) (Fin (real i * (W / real (timeLen ss))))
        (js_sub (Fin (H / 2)) (js_mul (timeSamples fd i) (Fin (H / 2))))"
proof -
  have n: "real (timeLen ss) \<noteq> 0" using assms by simp
  have "waveform_calls ss fd (Fin W) (Fin H) ! Suc (Suc i)
      = (waveform_loop (timeSamples fd) (timeLen ss) (Fin (W / real (timeLen ss))) (Fin (H / 2)) 0 (Fin 0)
          @ [StrokeStyle ''#00ff7f'', LineWidth (Fin 1), Stroke]) ! i"
    using n by (simp add: waveform_calls_def Let_def)
  also have "\<dots> = waveform_loop (timeSamples fd) (timeLen ss) (Fin (W / real (timeLen ss))) (Fin (H / 2)) 0 (Fin 0) ! i"
    using assms by (simp add: nth_append waveform_loop_length)
  also have "\<dots> = (if 0 + i = 0 then MoveTo else LineTo) (Fin (0 + real i * (W / real (timeLen ss))))
        (js_sub (Fin (H / 2)) (js_mul (timeSamples fd (0 + i)) (Fin (H / 2))))"
    using assms by (intro waveform_loop_nth) simp
  finally show ?thesis by simp
qed

text \<open>
  C8, as the code has it. On a canvas of logical height 0 the midline and the scale are
  both 0, and every amplitude is plotted at \<open>y = 0\<close>: the amplitudes 1 and -1 of the
  first two samples get the same \<open>y\<close>, so the mapping cannot be inverted.
\<close>

theorem waveform_flat_counterexample:
  "timeSamples two_tone 0 = Fin 1 \<and> timeSamples two_tone 1 = Fin (- 1)
   \<and> waveform_calls new_session two_tone (Fin 300) (Fin 0) ! 2 = MoveTo (Fin 0) (Fin 0)
   \<and> waveform_calls new_session two_tone (Fin 300) (Fin 0) ! 3 = LineTo (Fin (300 / 2048)) (Fin 0)"
proof -
  have n: "timeLen new_session = 2048"
    by (simp add: new_session_def fftSize_def)
  have a: "waveform_calls new_session two_tone (Fin 300) (Fin 0) ! 2 = MoveTo (Fin 0) (Fin 0)"
    unfolding numeral_2_eq_2
    by (subst waveform_calls_nth) (simp_all add: n two_tone_def js_sub_def)
  have b: "waveform_calls new_session two_tone (Fin 300) (Fin 0) ! 3 = LineTo (Fin (300 / 2048)) (Fin 0)"
    unfolding numeral_3_eq_3
    by (subst waveform_calls_nth) (simp_all add: n two_tone_def js_sub_def)
  have c: "timeSamples two_tone 0 = Fin 1 \<and> timeSamples two_tone 1 = Fin (- 1)"
    by (simp add: two_tone_def)
  show ?thesis using a b c by blast
qed

lemma waveform_loop_step:
  "i + k < len \<Longrightarrow>
   waveform_loop t len sw mid i x ! k =
     (if i + k = 0 then MoveTo else LineTo) (((\<lambda>x. js_add x sw) ^^ k) x)
       (js_sub mid (js_mul (t (i + k)) mid))"
proof (induction k arbitrary: i x)
  case 0
  then show ?case by (subst waveform_loop.simps) (simp add: Let_def)
next
  case (Suc k)
  have "waveform_loop t len sw mid i x ! Suc k
        = waveform_loop t len sw mid (i + 1) (js_add x sw) ! k"
    using Suc.prems by (subst waveform_loop.simps) (simp add: Let_def)
  also have "\<dots> = (if (i + 1) + k = 0 then MoveTo else LineTo) (((\<lambda>x. js_add x sw) ^^ k) (js_add x sw))
                     (js_sub mid (js_mul (t ((i + 1) + k)) mid))"
    using Suc.prems by (intro Suc.IH) simp
  also have "((\<lambda>x. js_add x sw) ^^ k) (js_add x sw) = ((\<lambda>x. js_add x sw) ^^ Suc k) x"
    using funpow_swap1[of "\<lambda>x. js_add x sw" k x] by simp
  finally show ?case by simp
qed

lemma waveform_calls_step:
  assumes "i < timeLen ss"
  shows "waveform_calls ss fd waveW waveH ! Suc (Suc i) =
     (if i = 0 then MoveTo else LineTo)
       (((\<lambda>x. js_add x (js_div waveW (Fin (real (timeLen ss))))) ^^ i) (Fin 0))
       (js_sub (js_div waveH (Fin 2)) (js_mul (timeSamples fd i) (js_div waveH (Fin 2))))"
proof -
  have "waveform_calls ss fd waveW waveH ! Suc (Suc i)
      = (waveform_loop (timeSamples fd) (timeLen ss) (js_div waveW (Fin (real (timeLen ss))))
           (js_div waveH (Fin 2)) 0 (Fin 0)
          @ [StrokeStyle ''#00ff7f'', LineWidth (Fin 1), Stroke]) ! i"
    by (simp add: waveform_calls_def Let_def)
  also have "\<dots> = waveform_loop (timeSamples fd) (timeLen ss) (js_div waveW (Fin (real (timeLen ss))))
           (js_div waveH (Fin 2)) 0 (Fin 0) ! i"
    using assms by (simp add: nth_append waveform_loop_length)
  also have "\<dots> = (if 0 + i = 0 then MoveTo else LineTo)
       (((\<lambda>x. js_add x (js_div waveW (Fin (real (timeLen ss))))) ^^ i) (Fin 0))
       (js_sub (js_div waveH (Fin 2)) (js_mul (timeSamples fd (0 + i)) (js_div waveH (Fin 2))))"
    using assms by (intro waveform_loop_step) simp
  finally show ?thesis by simp
qed

lemma wave_y:
  assumes "i < timeLen ss" "timeSamples fd i = Fin a"
  shows "call_y (waveform_calls ss fd waveW (Fin H) ! Suc (Suc i)) = Fin (H / 2 - a * (H / 2))"
  unfolding waveform_calls_step[OF assms(1)] assms(2) by (simp add: js_sub_def)

text \<open>
  C8, amended: for every sample index \<open>i\<close> and amplitude \<open>a\<close> in \<open>[-1, 1]\<close>, the
  waveform renderer plots sample \<open>i\<close> (with \<^verbatim>\<open>moveTo\<close> for the first and \<^verbatim>\<open>lineTo\<close>
  for the others, after the two calls that clear the canvas and begin the path) at the
  \<open>x\<close> that \<open>i\<close> additions of \<open>sliceWidth = waveWidth / sampleCount\<close> to 0 give,
  and at \<open>y = mid - a * mid\<close> with \<open>mid = waveHeight / 2\<close>, both as the code's
  arithmetic computes them: they are \<open>i * sliceWidth\<close> and the affine value
  \<open>waveHeight / 2 - a * waveHeight / 2\<close> up to rounding. The amplitude 0 is plotted
  exactly at \<open>waveHeight / 2\<close>, 1 at 0 and -1 at \<open>waveHeight\<close>; \<open>y\<close> does not
  increase when \<open>a\<close> grows and lies in \<open>[0, waveHeight]\<close>. That the mapping can be
  inverted is not part of the claim.
\<close>

theorem waveform_points:
  assumes "i < timeLen ss" "j < timeLen ss"
    and "timeSamples fd i = Fin a" "- 1 \<le> a" "a \<le> 1"
    and "timeSamples fd j = Fin b" "- 1 \<le> b" "b \<le> 1"
    and "0 \<le> H"
  shows "waveform_calls ss fd waveW (Fin H) ! Suc (Suc i) =
           (if i = 0 then MoveTo else LineTo)
             (((\<lambda>x. js_add x (js_div waveW (Fin (real (timeLen ss))))) ^^ i) (Fin 0))
             (js_sub (js_div (Fin H) (Fin 2)) (js_mul (Fin a) (js_div (Fin H) (Fin 2))))
       \<and> (a = 0 \<longrightarrow> call_y (waveform_calls ss fd waveW (Fin H) ! Suc (Suc i)) = Fin (H / 2))
       \<and> (a = 1 \<longrightarrow> call_y (waveform_calls ss fd waveW (Fin H) ! Suc (Suc i)) = Fin 0)
       \<and> (a = - 1 \<longrightarrow> call_y (waveform_calls ss fd waveW (Fin H) ! Suc (Suc i)) = Fin H)
       \<and> (a \<le> b \<longrightarrow>
            js_le (call_y (waveform_calls ss fd waveW (Fin H) ! Suc (Suc j)))
                  (call_y (waveform_calls ss fd waveW (Fin H) ! Suc (Suc i))))
       \<and> js_le (Fin 0) (call_y (waveform_calls ss fd waveW (Fin H) ! Suc (Suc i)))
       \<and> js_le (call_y (waveform_calls ss fd waveW (Fin H) ! Suc (Suc i))) (Fin H)"
proof -
  have p: "waveform_calls ss fd waveW (Fin H) ! Suc (Suc i) =
           (if i = 0 then MoveTo else LineTo)
             (((\<lambda>x. js_add x (js_div waveW (Fin (real (timeLen ss))))) ^^ i) (Fin 0))
             (js_sub (js_div (Fin H) (Fin 2)) (js_mul (Fin a) (js_div (Fin H) (Fin 2))))"
    unfolding waveform_calls_step[OF assms(1)] assms(3) by (rule refl)
  have yi: "call_y (waveform_calls ss fd waveW (Fin H) ! Suc (Suc i)) = Fin (H / 2 - a * (H / 2))"
    using assms(1,3) by (rule wave_y)
  have yj: "call_y (waveform_calls ss fd waveW (Fin H) ! Suc (Suc j)) = Fin (H / 2 - b * (H / 2))"
    using assms(2,6) by (rule wave_y)
  have h: "0 \<le> H / 2" using assms(9) by simp
  have mono: "a \<le> b \<longrightarrow> H / 2 - b * (H / 2) \<le> H / 2 - a * (H / 2)"
    using h by (simp add: mult_right_mono)
  have "a * (H / 2) \<le> 1 * (H / 2)" using assms(5) h by (rule mult_right_mono)
  then have lo: "0 \<le> H / 2 - a * (H / 2)" by simp
  have "- 1 * (H / 2) \<le> a * (H / 2)" using assms(4) h by (rule mult_right_mono)
  then have hi: "H / 2 - a * (H / 2) \<le> H" by simp
  show ?thesis unfolding yi yj using p mono lo hi by simp
qed

theorem waveform_points_witness:
  "(1::nat) < timeLen new_session \<and> (0::nat) < timeLen new_session
   \<and> timeSamples two_tone 1 = Fin (- 1) \<and> timeSamples two_tone 0 = Fin 1 \<and> (0::real) \<le> 150
   \<and> waveform_calls new_session two_tone (Fin 300) (Fin 150) ! Suc (Suc 1) =
       LineTo (Fin (300 / 2048)) (Fin 150)
   \<and> call_y (waveform_calls new_session two_tone (Fin 300) (Fin 150) ! Suc (Suc 1)) = Fin 150
   \<and> js_le (call_y (waveform_calls new_session two_tone (Fin 300) (Fin 150) ! Suc (Suc 0)))
           (call_y (waveform_calls new_session two_tone (Fin 300) (Fin 150) ! Suc (Suc 1)))"
proof -
  have n: "(1::nat) < timeLen new_session" "(0::nat) < timeLen new_session"
    by (simp_all add: new_session_def fftSize_def)
  have s: "timeSamples two_tone 1 = Fin (- 1)" "timeSamples two_tone 0 = Fin 1"
    by (simp_all add: two_tone_def)
  have h: "(0::real) \<le> 150" "(- 1::real) \<le> - 1" "(- 1::real) \<le> 1" "(1::real) \<le> 1"
    by simp_all
  note t = waveform_points [OF n(1) n(2) s(1) h(2) h(3) s(2) h(3) h(4) h(1), of "Fin 300"]
  have e: "(if (1::nat) = 0 then MoveTo else LineTo)
             (((\<lambda>x. js_add x (js_div (Fin 300) (Fin (real (timeLen new_session))))) ^^ 1) (Fin 0))
             (js_sub (js_div (Fin 150) (Fin 2)) (js_mul (Fin (- 1)) (js_div (Fin 150) (Fin 2))))
           = LineTo (Fin (300 / 2048)) (Fin 150)"
    by (simp add: new_session_def fftSize_def js_sub_def)
  show ?thesis using t n s h unfolding e by blast
qed

section \<open>Field and log lemmas\<close>

lemmas handler_defs =
  stopCapture_def startCapture_def catch_block_def startCapture_captured_def
  startCapture_resumed_def toggle_click_def on_unload_def on_resize_def close_rejected_def
  draw_def requestAnimationFrame_def cancelAnimationFrame_def clearCanvases_def
  initCanvases_def setupCanvas_def setStatus_def showError_def clearError_def captureAudio_def
  emit_def emits_def

lemma stop_fields:
  "isCapturing (stopCapture w) = False"
  "toggleDisabled (stopCapture w) = False"
  "statusText (stopCapture w) = ''Stopped''"
  "toggleText (stopCapture w) = ''Start''"
  "stream (stopCapture w) = None"
  "audioContext (stopCapture w) = None"
  "animationId (stopCapture w) = None"
  "awaitingCapture (stopCapture w) = awaitingCapture w"
  "awaitingResume (stopCapture w) = awaitingResume w"
  "unloaded (stopCapture w) = unloaded w"
  "errHidden (stopCapture w) = errHidden w"
  "errText (stopCapture w) = errText w"
  "specWidth (stopCapture w) = specWidth w"
  "rafPending (stopCapture w) =
     (case animationId w of Some h \<Rightarrow> removeAll h (rafPending w) | None \<Rightarrow> rafPending w)"
  by (simp_all add: handler_defs Let_def split: option.splits)

lemma stop_pending:
  assumes "frames_owned w"
  shows "rafPending (stopCapture w) = []"
proof (cases "rafPending w = []")
  case True
  then show ?thesis by (simp add: stop_fields split: option.splits)
next
  case False
  then have "map Some (rafPending w) = [animationId w]"
    using assms by (simp add: frames_owned_def)
  then obtain h where "rafPending w = [h]" "animationId w = Some h"
    by (cases "rafPending w") auto
  then show ?thesis by (simp add: stop_fields)
qed

lemma inv_stop:
  assumes "lifecycle_inv w" "unloaded w \<or> \<not> starting w"
  shows "lifecycle_inv (stopCapture w)"
proof -
  have "frames_owned w" using assms(1) by (simp add: lifecycle_inv_def)
  then have "rafPending (stopCapture w) = []" by (rule stop_pending)
  then show ?thesis using assms
    by (auto simp add: lifecycle_inv_def starting_def frames_owned_def stop_fields)
qed

lemma start_fields:
  "\<not> isCapturing w \<Longrightarrow> awaitingCapture (startCapture w) = awaitingCapture w + 1"
  "awaitingResume (startCapture w) = awaitingResume w"
  "\<not> isCapturing w \<Longrightarrow> toggleDisabled (startCapture w)"
  "isCapturing (startCapture w) = isCapturing w"
  "rafPending (startCapture w) = rafPending w"
  "unloaded (startCapture w) = unloaded w"
  "animationId (startCapture w) = animationId w"
  by (simp_all add: startCapture_def clearError_def setStatus_def captureAudio_def emit_def Let_def)

lemma inv_start:
  assumes "lifecycle_inv w" "\<not> starting w" "\<not> isCapturing w"
  shows "lifecycle_inv (startCapture w)"
proof -
  have "frames_owned w" using assms(1) by (simp add: lifecycle_inv_def)
  then have "rafPending w = []" using assms(3) by (simp add: frames_owned_def)
  then show ?thesis using assms
    by (simp add: lifecycle_inv_def starting_def frames_owned_def start_fields)
qed

lemma catch_fields:
  "catch_block e w = stopCapture ((showError (message_or e ''Capture failed'') (emit (ConsoleError e) w))\<lparr>toggleDisabled := False\<rparr>)"
  by (simp add: catch_block_def Let_def)

lemma inv_catch:
  assumes "\<not> starting w" "\<not> isCapturing w" "rafPending w = []"
  shows "lifecycle_inv (catch_block e w)"
proof -
  have "rafPending (catch_block e w) = []"
    using assms(3) by (simp add: catch_fields stop_fields showError_def setStatus_def emit_def split: option.splits)
  moreover have "awaitingCapture (catch_block e w) = awaitingCapture w" "awaitingResume (catch_block e w) = awaitingResume w"
    by (simp_all add: catch_fields stop_fields showError_def setStatus_def emit_def)
  ultimately show ?thesis using assms(1)
    by (simp add: lifecycle_inv_def starting_def frames_owned_def)
qed

lemma draw_fields:
  "rafPending (draw ss fd w) = rafPending w @ [rafCounter w + 1]"
  "animationId (draw ss fd w) = Some (rafCounter w + 1)"
  "isCapturing (draw ss fd w) = isCapturing w"
  "awaitingCapture (draw ss fd w) = awaitingCapture w"
  "awaitingResume (draw ss fd w) = awaitingResume w"
  "unloaded (draw ss fd w) = unloaded w"
  "toggleDisabled (draw ss fd w) = toggleDisabled w"
  "specWidth (draw ss fd w) = specWidth w"
  "errHidden (draw ss fd w) = errHidden w"
  "errText (draw ss fd w) = errText w"
  by (simp_all add: draw_def requestAnimationFrame_def emit_def emits_def Let_def)

lemma resize_fields:
  "stream (on_resize sb wb dpr w) = stream w"
  "audioContext (on_resize sb wb dpr w) = audioContext w"
  "animationId (on_resize sb wb dpr w) = animationId w"
  "isCapturing (on_resize sb wb dpr w) = isCapturing w"
  "rafPending (on_resize sb wb dpr w) = rafPending w"
  "rafCounter (on_resize sb wb dpr w) = rafCounter w"
  "awaitingCapture (on_resize sb wb dpr w) = awaitingCapture w"
  "awaitingResume (on_resize sb wb dpr w) = awaitingResume w"
  "unloaded (on_resize sb wb dpr w) = unloaded w"
  "toggleDisabled (on_resize sb wb dpr w) = toggleDisabled w"
  "errHidden (on_resize sb wb dpr w) = errHidden w"
  "errText (on_resize sb wb dpr w) = errText w"
  "statusText (on_resize sb wb dpr w) = statusText w"
  "specWidth (on_resize sb wb dpr w) = r_width sb"
  "specHeight (on_resize sb wb dpr w) = r_height sb"
  "waveWidth (on_resize sb wb dpr w) = r_width wb"
  "waveHeight (on_resize sb wb dpr w) = r_height wb"
  by (simp_all add: on_resize_def initCanvases_def setupCanvas_def clearCanvases_def emit_def Let_def)

lemma inv_step:
  assumes inv: "lifecycle_inv w"
  shows "lifecycle_inv (step ev w)"
proof (cases "unloaded w")
  case True
  then show ?thesis using inv by (cases ev) simp_all
next
  case live: False
  have fo: "frames_owned w"
    using inv by (simp add: lifecycle_inv_def)
  have one: "awaitingCapture w + awaitingResume w \<le> 1"
    and st: "starting w \<Longrightarrow> toggleDisabled w \<and> \<not> isCapturing w \<and> rafPending w = []"
    using inv live by (simp_all add: lifecycle_inv_def)
  show ?thesis
  proof (cases ev)
    case Click
    show ?thesis
    proof (cases "toggleDisabled w")
      case True
      then show ?thesis using Click inv by simp
    next
      case False
      then have "\<not> starting w" using st by blast
      then show ?thesis using Click inv live False
        by (simp add: toggle_click_def inv_stop inv_start)
    qed
  next
    case Unload
    have "frames_owned (stopCapture w)"
      using stop_pending[OF fo] by (simp add: frames_owned_def)
    then show ?thesis using Unload live one
      by (simp add: lifecycle_inv_def frames_owned_def on_unload_def stop_fields)
  next
    case (Resized sb wb dpr)
    then show ?thesis using inv live
      by (simp add: lifecycle_inv_def starting_def frames_owned_def resize_fields)
  next
    case (CaptureSettled le s created)
    show ?thesis
    proof (cases "awaitingCapture w = 0")
      case True
      then show ?thesis using CaptureSettled inv by simp
    next
      case False
      then have ac: "awaitingCapture w = 1" "awaitingResume w = 0" using one by simp_all
      then have "starting w" by (simp add: starting_def)
      then have s: "toggleDisabled w" "\<not> isCapturing w" "rafPending w = []" using st by simp_all
      define w' where "w' = w\<lparr>awaitingCapture := awaitingCapture w - 1\<rparr>"
      have w': "\<not> starting w'" "\<not> isCapturing w'" "rafPending w' = []" "toggleDisabled w'" "\<not> unloaded w'"
        using ac s live by (simp_all add: w'_def starting_def)
      have "lifecycle_inv (startCapture_captured (capture_callback le s) created w')"
      proof (cases "capture_callback le s")
        case (Inl e)
        then show ?thesis using w' by (simp add: startCapture_captured_def inv_catch)
      next
        case (Inr ms)
        show ?thesis
        proof (cases created)
          case (Inl e)
          have "lifecycle_inv (catch_block e (w'\<lparr>stream := Some ms\<rparr>))"
            by (rule inv_catch) (use w' in \<open>simp_all add: starting_def\<close>)
          then show ?thesis using Inl Inr by (simp add: startCapture_captured_def)
        next
          case (Inr c)
          then show ?thesis using \<open>capture_callback le s = Inr ms\<close> w'
            by (simp add: startCapture_captured_def lifecycle_inv_def starting_def frames_owned_def emit_def Let_def)
        qed
      qed
      then show ?thesis using CaptureSettled False live by (simp add: w'_def)
    qed
  next
    case (ResumeSettled resumed source fd)
    show ?thesis
    proof (cases "awaitingResume w = 0")
      case True
      then show ?thesis using ResumeSettled inv by simp
    next
      case False
      then have ac: "awaitingCapture w = 0" "awaitingResume w = 1" using one by simp_all
      then have "starting w" by (simp add: starting_def)
      then have s: "toggleDisabled w" "\<not> isCapturing w" "rafPending w = []" using st by simp_all
      define w' where "w' = w\<lparr>awaitingResume := awaitingResume w - 1\<rparr>"
      have w': "\<not> starting w'" "\<not> isCapturing w'" "rafPending w' = []" "\<not> unloaded w'"
        using ac s live by (simp_all add: w'_def starting_def)
      have "lifecycle_inv (startCapture_resumed resumed source fd w')"
      proof (cases "resumed = None \<and> audioContext w' \<noteq> None \<and> source = None")
        case True
        then obtain c where "audioContext w' = Some c" by auto
        then show ?thesis using True w'
          by (simp add: startCapture_resumed_def lifecycle_inv_def starting_def frames_owned_def
                draw_fields setStatus_def emits_def Let_def)
      next
        case False
        then show ?thesis using w'
          by (auto simp add: startCapture_resumed_def inv_catch split: option.splits)
      qed
      then show ?thesis using ResumeSettled False live by (simp add: w'_def)
    qed
  next
    case (AnimationFrame h fd)
    show ?thesis
    proof (cases "h \<in> set (rafPending w)")
      case False
      then show ?thesis using AnimationFrame inv by simp
    next
      case True
      then have "rafPending w \<noteq> []" by auto
      then have ic: "isCapturing w" and "map Some (rafPending w) = [animationId w]"
        using fo by (simp_all add: frames_owned_def)
      then have "rafPending w = [h]" using True by (cases "rafPending w") auto
      moreover have "\<not> starting w" using st ic by blast
      ultimately show ?thesis using AnimationFrame True live ic one
        by (simp add: lifecycle_inv_def starting_def frames_owned_def draw_fields)
    qed
  next
    case (CloseRejected e)
    then show ?thesis using inv by (simp add: close_rejected_def)
  qed
qed

lemma initial_inv: "initial w \<Longrightarrow> lifecycle_inv w"
  by (simp add: initial_def lifecycle_inv_def starting_def frames_owned_def)

lemma reachable_inv: "reachable w \<Longrightarrow> lifecycle_inv w"
  by (induction rule: reachable.induct) (simp_all add: initial_inv inv_step)

section \<open>The spectrum curve\<close>

lemma spectrum_loop_nth:
  "real (b + k) < BUCKETS (freqLen ss) \<Longrightarrow> 0 < b \<Longrightarrow>
   spectrum_loop ss fd W H b (point_x ss W (b - 1)) (point_y ss fd H (b - 1)) ! k =
     QuadraticCurveTo (point_x ss W (b + k - 1)) (point_y ss fd H (b + k - 1))
       (js_div (js_add (point_x ss W (b + k - 1)) (point_x ss W (b + k))) (Fin 2))
       (js_div (js_add (point_y ss fd H (b + k - 1)) (point_y ss fd H (b + k))) (Fin 2))"
proof (induction k arbitrary: b)
  case 0
  then show ?case
    by (subst spectrum_loop.simps) (simp add: Let_def point_x_def point_y_def)
next
  case (Suc k)
  have lt: "real b < BUCKETS (freqLen ss)" using Suc.prems by simp
  have px: "logX (lw ss) W (b * BINS_PER_BUCKET) = point_x ss W (b + 1 - 1)"
    using Suc.prems by (simp add: point_x_def)
  have py: "mapY (minDb ss) (rng ss) H (bucket_avg ss fd (b * BINS_PER_BUCKET)) = point_y ss fd H (b + 1 - 1)"
    by (simp add: point_y_def)
  have "spectrum_loop ss fd W H b (point_x ss W (b - 1)) (point_y ss fd H (b - 1)) ! Suc k
      = spectrum_loop ss fd W H (b + 1) (point_x ss W (b + 1 - 1)) (point_y ss fd H (b + 1 - 1)) ! k"
    using lt by (subst spectrum_loop.simps) (simp add: Let_def px py del: add_diff_cancel_right')
  also have "\<dots> = QuadraticCurveTo (point_x ss W (b + 1 + k - 1)) (point_y ss fd H (b + 1 + k - 1))
       (js_div (js_add (point_x ss W (b + 1 + k - 1)) (point_x ss W (b + 1 + k))) (Fin 2))
       (js_div (js_add (point_y ss fd H (b + 1 + k - 1)) (point_y ss fd H (b + 1 + k))) (Fin 2))"
    using Suc.prems by (intro Suc.IH) simp_all
  finally show ?case by simp
qed

lemma spectrum_loop_long:
  "real (b + k) < BUCKETS (freqLen ss) \<Longrightarrow> k < length (spectrum_loop ss fd W H b px py)"
proof (induction k arbitrary: b px py)
  case 0
  then show ?case by (subst spectrum_loop.simps) (simp add: Let_def)
next
  case (Suc k)
  have lt: "real b < BUCKETS (freqLen ss)" using Suc.prems by simp
  have "real (b + 1 + k) < BUCKETS (freqLen ss)" using Suc.prems by simp
  from Suc.IH[OF this] lt show ?case
    by (subst spectrum_loop.simps) (simp add: Let_def)
qed

lemma spectrum_calls_nth:
  assumes "real (Suc k) < BUCKETS (freqLen ss)"
  shows "spectrum_calls ss fd W H ! (k + 3) =
     QuadraticCurveTo (point_x ss W k) (point_y ss fd H k)
       (js_div (js_add (point_x ss W k) (point_x ss W (Suc k))) (Fin 2))
       (js_div (js_add (point_y ss fd H k) (point_y ss fd H (Suc k))) (Fin 2))"
proof -
  have "spectrum_calls ss fd W H ! (k + 3)
      = (spectrum_loop ss fd W H 1 (point_x ss W (1 - 1)) (point_y ss fd H (1 - 1)) @
          [LineTo W H, LineTo (Fin 0) H, ClosePath,
            FillStyleGradient (Fin 0) (Fin 0) (Fin 0) H
              [(Fin 0, ''rgba(0,255,255,0.8)''), (Fin 1, ''rgba(0,0,128,0.1)'')],
            Fill, StrokeStyle ''rgba(255,255,255,0.6)'', LineWidth (Fin 1), Stroke]) ! k"
    by (simp add: spectrum_calls_def Let_def point_x_def point_y_def numeral_3_eq_3)
  also have "\<dots> = spectrum_loop ss fd W H 1 (point_x ss W (1 - 1)) (point_y ss fd H (1 - 1)) ! k"
    using spectrum_loop_long[of 1 k ss] assms by (simp add: nth_append)
  also have "\<dots> = QuadraticCurveTo (point_x ss W (1 + k - 1)) (point_y ss fd H (1 + k - 1))
       (js_div (js_add (point_x ss W (1 + k - 1)) (point_x ss W (1 + k))) (Fin 2))
       (js_div (js_add (point_y ss fd H (1 + k - 1)) (point_y ss fd H (1 + k))) (Fin 2))"
    using assms by (intro spectrum_loop_nth) simp_all
  finally show ?thesis by simp
qed

lemma draw_trace:
  "trace (draw ss fd w) =
     trace w @ DrawEntered (isCapturing w)
       # map (Ctx SpecCanvas) (spectrum_calls ss fd (specWidth w) (specHeight w))
       @ map (Ctx WaveCanvas) (waveform_calls ss fd (waveWidth w) (waveHeight w))
       @ [RequestAnimationFrame (rafCounter w + 1)]"
  by (simp add: draw_def requestAnimationFrame_def emit_def emits_def Let_def)

lemma emitted_append: "trace w' = trace w @ es \<Longrightarrow> emitted w w' = es"
  by (simp add: emitted_def)

lemma stop_trace:
  "trace (stopCapture w) =
     trace w
     @ (case animationId w of Some h \<Rightarrow> [CancelAnimationFrame h] | None \<Rightarrow> [])
     @ (case stream w of Some s \<Rightarrow> map TrackStop s | None \<Rightarrow> [])
     @ (case audioContext w of Some c \<Rightarrow> [CloseContext c] | None \<Rightarrow> [])
     @ clears w"
  by (simp add: handler_defs clears_def Let_def split: option.splits)

lemma start_trace:
  "trace (startCapture w) = trace w @ (if isCapturing w then [] else [TabCapture])"
  by (simp add: handler_defs Let_def)

lemma catch_trace:
  "trace (catch_block e w) =
     trace w @ ConsoleError e
     # (case animationId w of Some h \<Rightarrow> [CancelAnimationFrame h] | None \<Rightarrow> [])
     @ (case stream w of Some s \<Rightarrow> map TrackStop s | None \<Rightarrow> [])
     @ (case audioContext w of Some c \<Rightarrow> [CloseContext c] | None \<Rightarrow> [])
     @ clears w"
  by (simp add: catch_fields stop_trace showError_def setStatus_def emit_def clears_def)

lemma resize_trace:
  "trace (on_resize sb wb dpr w) =
     trace w
     @ [SetCanvasWidth SpecCanvas (js_mul (r_width sb) (dpr_or_1 dpr)),
        SetCanvasHeight SpecCanvas (js_mul (r_height sb) (dpr_or_1 dpr)),
        Ctx SpecCanvas (Scale (dpr_or_1 dpr) (dpr_or_1 dpr)),
        SetCanvasWidth WaveCanvas (js_mul (r_width wb) (dpr_or_1 dpr)),
        SetCanvasHeight WaveCanvas (js_mul (r_height wb) (dpr_or_1 dpr)),
        Ctx WaveCanvas (Scale (dpr_or_1 dpr) (dpr_or_1 dpr))]
     @ (if isCapturing w then []
        else [Ctx SpecCanvas (ClearRect (Fin 0) (Fin 0) (r_width sb) (r_height sb)),
              Ctx WaveCanvas (ClearRect (Fin 0) (Fin 0) (r_width wb) (r_height wb))])"
  by (simp add: on_resize_def initCanvases_def setupCanvas_def clearCanvases_def emit_def Let_def)

section \<open>Three concrete pages\<close>

lemma world0_fields:
  "initial world0" "trace world0 = 
     [SetCanvasWidth SpecCanvas (Fin 600), SetCanvasHeight SpecCanvas (Fin 300), Ctx SpecCanvas (Scale (Fin 2) (Fin 2)),
      SetCanvasWidth WaveCanvas (Fin 600), SetCanvasHeight WaveCanvas (Fin 300), Ctx WaveCanvas (Scale (Fin 2) (Fin 2))]"
  "specWidth world0 = Fin 300" "isCapturing world0 = False" "toggleDisabled world0 = False"
  "unloaded world0 = False" "awaitingCapture world0 = 0" "awaitingResume world0 = 0"
  by (simp_all add: world0_def blank_def box300_def initial_def initCanvases_def setupCanvas_def
        setStatus_def emit_def Let_def)

lemma world0_more:
  "rafPending world0 = []" "rafCounter world0 = 0" "animationId world0 = None"
  "stream world0 = None" "audioContext world0 = None"
  by (simp_all add: world0_def blank_def box300_def initCanvases_def setupCanvas_def
        setStatus_def emit_def Let_def)

lemma world0_dims:
  "specHeight world0 = Fin 150" "waveWidth world0 = Fin 300" "waveHeight world0 = Fin 150"
  by (simp_all add: world0_def blank_def box300_def initCanvases_def setupCanvas_def
        setStatus_def emit_def Let_def)

lemma draw_keeps:
  "stream (draw ss fd w) = stream w"
  "audioContext (draw ss fd w) = audioContext w"
  "specHeight (draw ss fd w) = specHeight w"
  "waveWidth (draw ss fd w) = waveWidth w"
  "waveHeight (draw ss fd w) = waveHeight w"
  by (simp_all add: draw_def requestAnimationFrame_def emit_def emits_def Let_def)

lemma resumed_fields:
  assumes "audioContext w = Some c"
  shows "isCapturing (startCapture_resumed None None fd w)"
    "rafPending (startCapture_resumed None None fd w) = rafPending w @ [rafCounter w + 1]"
    "animationId (startCapture_resumed None None fd w) = Some (rafCounter w + 1)"
    "unloaded (startCapture_resumed None None fd w) = unloaded w"
    "statusText (startCapture_resumed None None fd w) = ''Capturing...''"
    "toggleDisabled (startCapture_resumed None None fd w) = False"
  using assms
  by (simp_all add: startCapture_resumed_def draw_fields setStatus_def emits_def Let_def)

lemma resumed_keeps:
  assumes "audioContext w = Some c"
  shows "stream (startCapture_resumed None None fd w) = stream w"
    "audioContext (startCapture_resumed None None fd w) = Some c"
    "specWidth (startCapture_resumed None None fd w) = specWidth w"
    "specHeight (startCapture_resumed None None fd w) = specHeight w"
    "waveWidth (startCapture_resumed None None fd w) = waveWidth w"
    "waveHeight (startCapture_resumed None None fd w) = waveHeight w"
  using assms
  by (simp_all add: startCapture_resumed_def draw_fields draw_keeps setStatus_def emits_def Let_def)

lemma granted0_fields:
  "reachable granted0" "starting granted0" "\<not> isCapturing granted0" "\<not> unloaded granted0"
  "statusText granted0 = ''Starting...''" "audioContext granted0 = Some 1"
  "awaitingResume granted0 = 1" "awaitingCapture granted0 = 0"
  "rafPending granted0 = []" "rafCounter granted0 = 0" "toggleDisabled granted0"
proof -
  show "reachable granted0"
    unfolding granted0_def run_def foldl.simps
    by (intro reachable_step reachable_initial world0_fields)
  show "starting granted0" "\<not> isCapturing granted0" "\<not> unloaded granted0"
    "statusText granted0 = ''Starting...''" "audioContext granted0 = Some 1"
    "awaitingResume granted0 = 1" "awaitingCapture granted0 = 0"
    "rafPending granted0 = []" "rafCounter granted0 = 0" "toggleDisabled granted0"
    by (simp_all add: granted0_def run_def world0_fields world0_more starting_def toggle_click_def
          startCapture_def startCapture_captured_def clearError_def setStatus_def
          captureAudio_def emit_def Let_def)
qed

lemma granted0_more:
  "stream granted0 = Some [7]" "specWidth granted0 = Fin 300" "specHeight granted0 = Fin 150"
  "waveWidth granted0 = Fin 300" "waveHeight granted0 = Fin 150"
  by (simp_all add: granted0_def run_def world0_fields world0_more world0_dims toggle_click_def
        startCapture_def startCapture_captured_def clearError_def setStatus_def
        captureAudio_def emit_def Let_def)

lemma capturing0_fields:
  "reachable capturing0" "isCapturing capturing0" "\<not> unloaded capturing0"
  "rafPending capturing0 = [1]" "animationId capturing0 = Some 1"
proof -
  show "reachable capturing0"
    unfolding capturing0_def by (intro reachable_step granted0_fields)
  have c: "audioContext (granted0\<lparr>awaitingResume := 0\<rparr>) = Some 1"
    by (simp add: granted0_fields)
  show "isCapturing capturing0" "\<not> unloaded capturing0"
    "rafPending capturing0 = [1]" "animationId capturing0 = Some 1"
    by (simp_all add: capturing0_def granted0_fields resumed_fields[OF c])
qed

lemma capturing0_more:
  "stream capturing0 = Some [7]" "audioContext capturing0 = Some 1"
  "specWidth capturing0 = Fin 300" "specHeight capturing0 = Fin 150"
  "waveWidth capturing0 = Fin 300" "waveHeight capturing0 = Fin 150"
proof -
  have c: "audioContext (granted0\<lparr>awaitingResume := 0\<rparr>) = Some 1"
    by (simp add: granted0_fields)
  show "stream capturing0 = Some [7]" "audioContext capturing0 = Some 1"
    "specWidth capturing0 = Fin 300" "specHeight capturing0 = Fin 150"
    "waveWidth capturing0 = Fin 300" "waveHeight capturing0 = Fin 150"
    by (simp_all add: capturing0_def granted0_fields granted0_more resumed_keeps[OF c])
qed

section \<open>Frames and the lifecycle\<close>

lemma stop_no_draw: "DrawEntered b \<notin> set (emitted w (stopCapture w))"
  by (auto simp add: emitted_append[OF stop_trace] clears_def split: option.splits)

lemma start_no_draw: "DrawEntered b \<notin> set (emitted w (startCapture w))"
  by (simp add: emitted_append[OF start_trace])

lemma catch_no_draw: "DrawEntered b \<notin> set (emitted w (catch_block e w))"
  by (auto simp add: emitted_append[OF catch_trace] clears_def split: option.splits)

lemma resize_no_draw: "DrawEntered b \<notin> set (emitted w (on_resize sb wb dpr w))"
  by (simp add: emitted_append[OF resize_trace])

lemma emitted_self [simp]: "emitted w w = []"
  by (simp add: emitted_def)

lemma emitted_update [simp]:
  "emitted (w\<lparr>awaitingCapture := n\<rparr>) w' = emitted w w'"
  "emitted (w\<lparr>awaitingResume := n\<rparr>) w' = emitted w w'"
  "emitted (w\<lparr>rafPending := p\<rparr>) w' = emitted w w'"
  "emitted (w\<lparr>stream := s\<rparr>) w' = emitted w w'"
  by (simp_all add: emitted_def)

lemma captured_no_draw:
  "DrawEntered b \<notin> set (emitted w (startCapture_captured r c w))"
proof (cases r)
  case (Inl e)
  then show ?thesis by (simp add: startCapture_captured_def catch_no_draw)
next
  case (Inr s)
  show ?thesis
  proof (cases c)
    case (Inl e)
    then show ?thesis using Inr catch_no_draw[of b "w\<lparr>stream := Some s\<rparr>" e]
      by (simp add: startCapture_captured_def)
  next
    case (Inr x)
    then show ?thesis using \<open>r = Inr s\<close>
      by (simp add: startCapture_captured_def emitted_def emit_def Let_def)
  qed
qed

lemma resumed_trace:
  "audioContext w = Some c \<Longrightarrow>
   trace (startCapture_resumed None None fd w) =
     trace w @ [CreateMediaStreamSource c, CreateAnalyser c, ConnectAnalyser c, ConnectDestination c]
     @ DrawEntered (isCapturing w)
       # map (Ctx SpecCanvas) (spectrum_calls new_session fd (specWidth w) (specHeight w))
       @ map (Ctx WaveCanvas) (waveform_calls new_session fd (waveWidth w) (waveHeight w))
       @ [RequestAnimationFrame (rafCounter w + 1)]"
  by (simp add: startCapture_resumed_def draw_trace setStatus_def emits_def Let_def)

lemma resumed_draw:
  assumes "DrawEntered b \<in> set (emitted w (startCapture_resumed r s fd w))"
  shows "b = isCapturing w \<and> isCapturing (startCapture_resumed r s fd w)"
proof (cases "r = None \<and> audioContext w \<noteq> None \<and> s = None")
  case True
  then obtain c where c: "audioContext w = Some c" by auto
  have "isCapturing (startCapture_resumed None None fd w)"
    using c by (simp add: startCapture_resumed_def setStatus_def Let_def)
  then show ?thesis using assms True by (auto simp add: emitted_append[OF resumed_trace[OF c]])
next
  case False
  then have "\<exists>e. startCapture_resumed r s fd w = catch_block e w"
    by (auto simp add: startCapture_resumed_def split: option.splits)
  then show ?thesis using assms catch_no_draw by auto
qed

lemma frame_capturing:
  assumes "lifecycle_inv w" "h \<in> set (rafPending w)"
  shows "isCapturing w"
proof -
  have "rafPending w \<noteq> []" using assms(2) by auto
  then show ?thesis using assms(1) by (simp add: lifecycle_inv_def frames_owned_def)
qed

lemma frame_trace:
  assumes "lifecycle_inv w" "h \<in> set (rafPending w)" "\<not> unloaded w"
  shows "emitted w (step (AnimationFrame h fd) w) =
              DrawEntered True
              # map (Ctx SpecCanvas) (spectrum_calls new_session fd (specWidth w) (specHeight w))
              @ map (Ctx WaveCanvas) (waveform_calls new_session fd (waveWidth w) (waveHeight w))
              @ [RequestAnimationFrame (rafCounter w + 1)]"
  using assms frame_capturing[OF assms(1,2)] by (simp add: emitted_def draw_trace)

lemma frame_flag:
  assumes "lifecycle_inv w"
  shows "DrawEntered False \<notin> set (emitted w (step (AnimationFrame h fd) w))"
proof (cases "h \<in> set (rafPending w) \<and> \<not> unloaded w")
  case True
  then show ?thesis using frame_trace[OF assms, of h fd] by auto
next
  case False
  then show ?thesis by auto
qed

text \<open>
  C2, as the code has it. \<^verbatim>\<open>startCapture\<close> calls \<^verbatim>\<open>draw()\<close> itself and sets
  \<^verbatim>\<open>isCapturing\<close> only after the call returns: the first frame is drawn while the flag
  is false and the status still reads \<open>Starting...\<close>, that is before the transition
  to Capturing. It is the fifth entry the third piece of \<^verbatim>\<open>startCapture\<close> logs, after
  the four calls that build the graph.
\<close>

theorem first_frame_counterexample:
  "starting granted0 \<and> \<not> isCapturing granted0 \<and> statusText granted0 = ''Starting...''
   \<and> emitted granted0 (step (ResumeSettled None None two_tone) granted0) ! 4 = DrawEntered False
   \<and> isCapturing (step (ResumeSettled None None two_tone) granted0)"
proof -
  have c: "audioContext (granted0\<lparr>awaitingResume := 0\<rparr>) = Some 1"
    by (simp add: granted0_fields)
  have "emitted granted0 (step (ResumeSettled None None two_tone) granted0) ! 4 = DrawEntered False"
    by (simp add: granted0_fields emitted_def resumed_trace[OF c])
  then show ?thesis
    using granted0_fields capturing0_fields by (simp add: capturing0_def)
qed

text \<open>
  C2, amended: every iteration of the render loop that the frame scheduler runs begins
  while \<^verbatim>\<open>isCapturing\<close> is true (a frame is scheduled only in the state Capturing), and
  \<^verbatim>\<open>stopCapture\<close> leaves no frame scheduled, so none runs after it. The only execution
  of \<^verbatim>\<open>draw\<close> that begins while \<^verbatim>\<open>isCapturing\<close> is false is the first frame, which
  \<^verbatim>\<open>startCapture\<close> runs itself, in the state Starting, in the piece that then sets the
  flag.
\<close>

theorem frames_while_capturing:
  assumes "reachable w"
  shows "DrawEntered False \<notin> set (emitted w (step (AnimationFrame h fd) w))
       \<and> (h \<in> set (rafPending w) \<and> \<not> unloaded w \<longrightarrow>
            isCapturing w \<and> hd (emitted w (step (AnimationFrame h fd) w)) = DrawEntered True)
       \<and> rafPending (stopCapture w) = []
       \<and> step (AnimationFrame h fd) (stopCapture w) = stopCapture w
       \<and> (DrawEntered False \<in> set (emitted w (step ev w)) \<longrightarrow>
            (\<exists>r s f. ev = ResumeSettled r s f) \<and> starting w \<and> isCapturing (step ev w))"
proof -
  have inv: "lifecycle_inv w" using assms by (rule reachable_inv)
  have a: "DrawEntered False \<notin> set (emitted w (step (AnimationFrame h fd) w))"
    using inv by (rule frame_flag)
  have b: "h \<in> set (rafPending w) \<and> \<not> unloaded w \<longrightarrow>
            isCapturing w \<and> hd (emitted w (step (AnimationFrame h fd) w)) = DrawEntered True"
  proof (intro impI conjI)
    assume h: "h \<in> set (rafPending w) \<and> \<not> unloaded w"
    then show "isCapturing w" using frame_capturing[OF inv] by blast
    from h have "emitted w (step (AnimationFrame h fd) w) =
              DrawEntered True
              # map (Ctx SpecCanvas) (spectrum_calls new_session fd (specWidth w) (specHeight w))
              @ map (Ctx WaveCanvas) (waveform_calls new_session fd (waveWidth w) (waveHeight w))
              @ [RequestAnimationFrame (rafCounter w + 1)]"
      by (intro frame_trace inv) simp_all
    then show "hd (emitted w (step (AnimationFrame h fd) w)) = DrawEntered True"
      by (simp only: list.sel)
  qed
  have c: "rafPending (stopCapture w) = []"
    using inv by (simp add: lifecycle_inv_def stop_pending)
  have d: "step (AnimationFrame h fd) (stopCapture w) = stopCapture w"
    using c by simp
  have e: "(\<exists>r s f. ev = ResumeSettled r s f) \<and> starting w \<and> isCapturing (step ev w)"
    if f: "DrawEntered False \<in> set (emitted w (step ev w))"
  proof (cases ev)
    case Click
    then show ?thesis using f stop_no_draw[of False w] start_no_draw[of False w]
      by (auto simp add: toggle_click_def split: if_splits)
  next
    case Unload
    then show ?thesis using f stop_no_draw[of False w]
      by (auto simp add: on_unload_def emitted_def split: if_splits)
  next
    case (Resized sb wb dpr)
    then show ?thesis using f resize_no_draw[of False w] by (auto split: if_splits)
  next
    case (CaptureSettled le s cr)
    then show ?thesis
      using f captured_no_draw[of False "w\<lparr>awaitingCapture := awaitingCapture w - 1\<rparr>"]
      by (auto split: if_splits)
  next
    case (ResumeSettled r s f')
    then have live: "\<not> unloaded w" "awaitingResume w \<noteq> 0" using f by (auto split: if_splits)
    then have st: "starting w" by (simp add: starting_def)
    have "DrawEntered False \<in> set (emitted (w\<lparr>awaitingResume := awaitingResume w - 1\<rparr>)
            (startCapture_resumed r s f' (w\<lparr>awaitingResume := awaitingResume w - 1\<rparr>)))"
      using f ResumeSettled live by simp
    from resumed_draw[OF this] show ?thesis using ResumeSettled live st by simp
  next
    case (AnimationFrame h' fd')
    then show ?thesis using f frame_flag[OF inv, of h' fd'] by simp
  next
    case (CloseRejected x)
    then show ?thesis using f by (simp add: close_rejected_def split: if_splits)
  qed
  show ?thesis using a b c d e by blast
qed

theorem frames_while_capturing_witness:
  "reachable capturing0 \<and> 1 \<in> set (rafPending capturing0) \<and> \<not> unloaded capturing0
   \<and> isCapturing capturing0
   \<and> hd (emitted capturing0 (step (AnimationFrame 1 two_tone) capturing0)) = DrawEntered True
   \<and> rafPending (stopCapture capturing0) = []
   \<and> reachable granted0
   \<and> DrawEntered False \<in> set (emitted granted0 (step (ResumeSettled None None two_tone) granted0))
   \<and> starting granted0 \<and> isCapturing (step (ResumeSettled None None two_tone) granted0)"
proof -
  have c: "audioContext (granted0\<lparr>awaitingResume := 0\<rparr>) = Some 1"
    by (simp add: granted0_fields)
  have d: "DrawEntered False \<in> set (emitted granted0 (step (ResumeSettled None None two_tone) granted0))"
    by (simp add: granted0_fields emitted_def resumed_trace[OF c])
  show ?thesis
    using frames_while_capturing [OF capturing0_fields(1), of 1 two_tone Click]
      frames_while_capturing [OF granted0_fields(1), of 1 two_tone "ResumeSettled None None two_tone"]
      capturing0_fields granted0_fields d
    by simp
qed

section \<open>Starting twice\<close>

lemma stop_no_request: "TabCapture \<notin> set (emitted w (stopCapture w))"
  by (auto simp add: emitted_append[OF stop_trace] clears_def split: option.splits)

lemma catch_no_request: "TabCapture \<notin> set (emitted w (catch_block e w))"
  by (auto simp add: emitted_append[OF catch_trace] clears_def split: option.splits)

lemma resize_no_request: "TabCapture \<notin> set (emitted w (on_resize sb wb dpr w))"
  by (simp add: emitted_append[OF resize_trace])

lemma draw_no_request: "TabCapture \<notin> set (emitted w (draw ss fd w))"
  by (auto simp add: emitted_append[OF draw_trace])

lemma captured_no_request:
  "TabCapture \<notin> set (emitted w (startCapture_captured r c w))"
proof (cases r)
  case (Inl e)
  then show ?thesis by (simp add: startCapture_captured_def catch_no_request)
next
  case (Inr s)
  show ?thesis
  proof (cases c)
    case (Inl e)
    then show ?thesis using Inr catch_no_request[of "w\<lparr>stream := Some s\<rparr>" e]
      by (simp add: startCapture_captured_def)
  next
    case (Inr x)
    then show ?thesis using \<open>r = Inr s\<close>
      by (simp add: startCapture_captured_def emitted_def emit_def Let_def)
  qed
qed

lemma resumed_no_request:
  "TabCapture \<notin> set (emitted w (startCapture_resumed r s fd w))"
proof (cases "r = None \<and> audioContext w \<noteq> None \<and> s = None")
  case True
  then obtain c where c: "audioContext w = Some c" by auto
  show ?thesis using True by (auto simp add: emitted_append[OF resumed_trace[OF c]])
next
  case False
  then have "\<exists>e. startCapture_resumed r s fd w = catch_block e w"
    by (auto simp add: startCapture_resumed_def split: option.splits)
  then show ?thesis using catch_no_request by auto
qed

lemma request_only_by_click:
  assumes "TabCapture \<in> set (emitted w (step ev w))"
  shows "ev = Click \<and> \<not> unloaded w \<and> \<not> toggleDisabled w \<and> \<not> isCapturing w"
proof (cases ev)
  case Click
  then show ?thesis using assms stop_no_request[of w]
    by (auto simp add: toggle_click_def split: if_splits)
next
  case Unload
  then show ?thesis using assms stop_no_request[of w]
    by (auto simp add: on_unload_def emitted_def split: if_splits)
next
  case (Resized sb wb dpr)
  then show ?thesis using assms resize_no_request[of w] by (auto split: if_splits)
next
  case (CaptureSettled le s cr)
  then show ?thesis
    using assms captured_no_request[of "w\<lparr>awaitingCapture := awaitingCapture w - 1\<rparr>"]
    by (auto split: if_splits)
next
  case (ResumeSettled r s f)
  then show ?thesis
    using assms resumed_no_request[of "w\<lparr>awaitingResume := awaitingResume w - 1\<rparr>"]
    by (auto split: if_splits)
next
  case (AnimationFrame h fd)
  then show ?thesis
    using assms draw_no_request[of "w\<lparr>rafPending := removeAll h (rafPending w)\<rparr>"]
    by (auto split: if_splits)
next
  case (CloseRejected x)
  then show ?thesis using assms by (simp add: close_rejected_def split: if_splits)
qed

lemma click_builds_nothing:
  "NewAudioContext c \<notin> set (emitted w (step Click w))"
  "RequestAnimationFrame h \<notin> set (emitted w (step Click w))"
  by (auto simp add: toggle_click_def emitted_append[OF stop_trace] emitted_append[OF start_trace]
        clears_def split: option.splits)

lemma inv_pending: "lifecycle_inv w \<Longrightarrow> length (rafPending w) \<le> 1"
proof -
  assume "lifecycle_inv w"
  then have "rafPending w = [] \<or> map Some (rafPending w) = [animationId w]"
    by (auto simp add: lifecycle_inv_def frames_owned_def)
  then show ?thesis by (cases "rafPending w") auto
qed

text \<open>
  C1: in every reachable page whose state is Starting or Capturing, an invocation of
  \<^verbatim>\<open>startCapture\<close> is a no-op. The click listener is its only caller. While Capturing
  the function returns at its guard, leaving the page as it is (and the listener calls
  \<^verbatim>\<open>stopCapture\<close> instead); while Starting the button is disabled, the click is not
  dispatched and the page is left as it is. So no event of the page issues a capture
  request in these states, a click creates no audio context and schedules no frame,
  and there is never more than one suspended invocation or more than one scheduled
  frame.
\<close>

theorem start_reentry_noop:
  assumes "reachable w" "starting w \<or> isCapturing w"
  shows "(isCapturing w \<longrightarrow> startCapture w = w)
       \<and> (starting w \<longrightarrow> step Click w = w)
       \<and> TabCapture \<notin> set (emitted w (step ev w))
       \<and> NewAudioContext c \<notin> set (emitted w (step Click w))
       \<and> RequestAnimationFrame h \<notin> set (emitted w (step Click w))
       \<and> awaitingCapture (step ev w) + awaitingResume (step ev w) \<le> 1
       \<and> length (rafPending (step ev w)) \<le> 1"
proof -
  have inv: "lifecycle_inv w" using assms(1) by (rule reachable_inv)
  have gate: "unloaded w \<or> toggleDisabled w" if "starting w"
    using inv that by (auto simp add: lifecycle_inv_def)
  have a: "isCapturing w \<longrightarrow> startCapture w = w"
    by (simp add: startCapture_def)
  have b: "starting w \<longrightarrow> step Click w = w"
    using gate by auto
  have c: "TabCapture \<notin> set (emitted w (step ev w))"
  proof
    assume "TabCapture \<in> set (emitted w (step ev w))"
    then have "\<not> unloaded w \<and> \<not> toggleDisabled w \<and> \<not> isCapturing w"
      using request_only_by_click by blast
    then show False using assms(2) gate by blast
  qed
  have inv': "lifecycle_inv (step ev w)" using inv by (rule inv_step)
  then have d: "awaitingCapture (step ev w) + awaitingResume (step ev w) \<le> 1"
    by (simp add: lifecycle_inv_def)
  show ?thesis
    using a b c d inv_pending[OF inv'] click_builds_nothing[of _ w] by blast
qed

theorem start_reentry_noop_witness:
  "reachable capturing0 \<and> isCapturing capturing0 \<and> startCapture capturing0 = capturing0
   \<and> TabCapture \<notin> set (emitted capturing0 (step Click capturing0))
   \<and> reachable granted0 \<and> starting granted0 \<and> step Click granted0 = granted0
   \<and> TabCapture \<notin> set (emitted granted0 (step Click granted0))"
  using start_reentry_noop [of capturing0 Click] start_reentry_noop [of granted0 Click]
    capturing0_fields granted0_fields
  by blast

section \<open>A start that fails\<close>

lemma catch_result:
  "statusText (catch_block e w) = ''Stopped''"
  "errHidden (catch_block e w) = False"
  "errText (catch_block e w) = message_or e ''Capture failed''"
  "toggleDisabled (catch_block e w) = False"
  "isCapturing (catch_block e w) = False"
  "awaitingCapture (catch_block e w) = awaitingCapture w"
  "awaitingResume (catch_block e w) = awaitingResume w"
  "unloaded (catch_block e w) = unloaded w"
  by (simp_all add: catch_fields stop_fields showError_def setStatus_def emit_def)

lemma failure_entry:
  assumes "\<not> unloaded w" "start_failure ev w = Some e"
  shows "step ev w = catch_block e (catch_entry ev w)"
proof (cases ev)
  case (CaptureSettled le s cr)
  then have a: "awaitingCapture w \<noteq> 0" using assms(2) by (auto split: if_splits)
  show ?thesis
  proof (cases "capture_callback le s")
    case (Inl x)
    then show ?thesis
      using CaptureSettled assms a by (simp add: startCapture_captured_def)
  next
    case (Inr ms)
    then obtain x where "cr = Inl x" using CaptureSettled assms a by (cases cr) auto
    then show ?thesis
      using CaptureSettled assms a Inr by (simp add: startCapture_captured_def)
  qed
next
  case (ResumeSettled r s fd)
  then have a: "awaitingResume w \<noteq> 0" using assms(2) by (auto split: if_splits)
  show ?thesis
    using ResumeSettled assms a
    by (auto simp add: startCapture_resumed_def split: option.splits)
qed (use assms in simp_all)

lemma settled_step:
  assumes "settled msg u" "ev \<noteq> Click"
  shows "settled msg (step ev u)" and "ev \<noteq> Unload \<Longrightarrow> unloaded (step ev u) = unloaded u"
proof -
  show "settled msg (step ev u)"
    using assms
    by (cases ev) (simp_all add: settled_def on_unload_def stop_fields resize_fields close_rejected_def
          split: option.splits)
  show "unloaded (step ev u) = unloaded u" if "ev \<noteq> Unload"
    using assms that
    by (cases ev) (simp_all add: settled_def resize_fields close_rejected_def)
qed

lemma settled_run:
  assumes "settled msg u" "Click \<notin> set evs"
  shows "settled msg (run evs u) \<and> (Unload \<notin> set evs \<longrightarrow> unloaded (run evs u) = unloaded u)"
  using assms
proof (induction evs arbitrary: u)
  case Nil
  then show ?case by (simp add: run_def)
next
  case (Cons ev evs)
  have r: "run (ev # evs) u = run evs (step ev u)" by (simp add: run_def)
  have c: "ev \<noteq> Click" "Click \<notin> set evs" using Cons.prems(2) by auto
  have s: "settled msg (step ev u)" using Cons.prems(1) c(1) by (rule settled_step(1))
  from Cons.IH[OF s c(2)] settled_step(2)[OF Cons.prems(1) c(1)]
  show ?case unfolding r by auto
qed

lemma settled_click:
  assumes "settled msg u" "\<not> unloaded u"
  shows "step Click u = startCapture u" "errHidden (startCapture u)" "errText (startCapture u) = []"
  using assms
  by (simp_all add: settled_def toggle_click_def startCapture_def clearError_def setStatus_def
        captureAudio_def emit_def Let_def)

text \<open>
  C3, at a failing input: the capture is refused with the message \<open>Tab capture denied\<close>.
  The message is shown and the button is enabled again, but the status does not
  reflect the error: \<^verbatim>\<open>showError\<close> sets it to \<open>Error\<close> and \<^verbatim>\<open>stopCapture\<close>, called
  next by the \<^verbatim>\<open>catch\<close> block, overwrites it with \<open>Stopped\<close>.
\<close>

theorem rejected_start_status:
  "statusText denied0 = ''Stopped'' \<and> statusText denied0 \<noteq> ''Error''
   \<and> \<not> errHidden denied0 \<and> errText denied0 = ''Tab capture denied''
   \<and> \<not> toggleDisabled denied0 \<and> \<not> isCapturing denied0
   \<and> stream denied0 = None \<and> audioContext denied0 = None \<and> animationId denied0 = None
   \<and> rafPending denied0 = [] \<and> \<not> starting denied0"
  by (simp add: denied0_def run_def world0_fields world0_more toggle_click_def starting_def
        startCapture_def startCapture_captured_def catch_block_def stop_fields
        showError_def clearError_def setStatus_def captureAudio_def emit_def Let_def)

text \<open>
  C10: after every failed start (an event that makes the \<^verbatim>\<open>try\<close> block throw \<open>e\<close>, in
  a reachable page), the status reads \<open>Stopped\<close> and not \<open>Error\<close>. The event runs
  the \<^verbatim>\<open>catch\<close> block, which is \<^verbatim>\<open>stopCapture\<close> after \<^verbatim>\<open>showError\<close>: \<^verbatim>\<open>showError\<close>
  sets the status to \<open>Error\<close> and shows the message of \<open>e\<close>, or \<open>Capture failed\<close>
  when it has none, and \<^verbatim>\<open>stopCapture\<close> then sets the status to \<open>Stopped\<close> whatever it
  was, and leaves the error box alone. The box stays visible with the message through
  every sequence of events without a click; the next click invokes \<^verbatim>\<open>startCapture\<close>,
  which hides and empties it.
\<close>

theorem failed_start_ends_stopped:
  assumes "reachable w" "\<not> unloaded w" "start_failure ev w = Some e"
  shows "statusText (step ev w) = ''Stopped''
       \<and> \<not> errHidden (step ev w)
       \<and> errText (step ev w) = message_or e ''Capture failed''
       \<and> step ev w = catch_block e (catch_entry ev w)
       \<and> catch_block e v =
           stopCapture ((showError (message_or e ''Capture failed'') (emit (ConsoleError e) v))
                          \<lparr>toggleDisabled := False\<rparr>)
       \<and> statusText (showError msg v) = ''Error''
       \<and> \<not> errHidden (showError msg v) \<and> errText (showError msg v) = msg
       \<and> statusText ((showError (message_or e ''Capture failed'') (emit (ConsoleError e) v))
                          \<lparr>toggleDisabled := False\<rparr>) = ''Error''
       \<and> statusText (stopCapture v) = ''Stopped''
       \<and> errHidden (stopCapture v) = errHidden v \<and> errText (stopCapture v) = errText v
       \<and> (ev' \<noteq> Click \<longrightarrow>
            \<not> errHidden (step ev' (step ev w))
            \<and> errText (step ev' (step ev w)) = message_or e ''Capture failed'')
       \<and> step Click (step ev w) = startCapture (step ev w)
       \<and> errHidden (step Click (step ev w))
       \<and> (Click \<notin> set evs \<longrightarrow>
            \<not> errHidden (run evs (step ev w))
            \<and> errText (run evs (step ev w)) = message_or e ''Capture failed'')
       \<and> (Click \<notin> set evs \<and> Unload \<notin> set evs \<longrightarrow>
            step Click (run evs (step ev w)) = startCapture (run evs (step ev w))
            \<and> errHidden (step Click (run evs (step ev w)))
            \<and> errText (step Click (run evs (step ev w))) = [])"
proof -
  define u where "u = step ev w"
  define m where "m = message_or e ''Capture failed''"
  have en: "u = catch_block e (catch_entry ev w)"
    unfolding u_def using assms(2,3) by (rule failure_entry)
  have inv: "lifecycle_inv w" using assms(1) by (rule reachable_inv)
  then have one: "awaitingCapture w + awaitingResume w \<le> 1"
    by (simp add: lifecycle_inv_def)
  have z: "awaitingCapture (catch_entry ev w) = 0 \<and> awaitingResume (catch_entry ev w) = 0
           \<and> unloaded (catch_entry ev w) = unloaded w"
    using assms(3) one by (cases ev) (auto split: if_splits sum.splits)
  have u: "statusText u = ''Stopped''" "\<not> errHidden u" "errText u = m"
    "\<not> toggleDisabled u" "\<not> isCapturing u" "awaitingCapture u = 0" "awaitingResume u = 0"
    "\<not> unloaded u"
    using z assms(2) by (simp_all add: en m_def catch_result)
  have "lifecycle_inv u" unfolding u_def using inv by (rule inv_step)
  then have p: "rafPending u = []" using u(5) by (simp add: lifecycle_inv_def frames_owned_def)
  have st: "settled m u" using u p by (simp add: settled_def)
  have mech: "catch_block e v =
           stopCapture ((showError m (emit (ConsoleError e) v))\<lparr>toggleDisabled := False\<rparr>)"
    "statusText (showError msg v) = ''Error''"
    "\<not> errHidden (showError msg v)" "errText (showError msg v) = msg"
    "statusText ((showError m (emit (ConsoleError e) v))\<lparr>toggleDisabled := False\<rparr>) = ''Error''"
    "statusText (stopCapture v) = ''Stopped''"
    "errHidden (stopCapture v) = errHidden v" "errText (stopCapture v) = errText v"
    by (simp_all add: catch_fields m_def showError_def setStatus_def stop_fields)
  have k: "ev' \<noteq> Click \<longrightarrow> \<not> errHidden (step ev' u) \<and> errText (step ev' u) = m"
    using settled_step(1)[OF st, of ev'] by (simp add: settled_def)
  have c: "step Click u = startCapture u" "errHidden (step Click u)"
    using settled_click[OF st u(8)] by simp_all
  have q: "Click \<notin> set evs \<longrightarrow> \<not> errHidden (run evs u) \<and> errText (run evs u) = m"
    using settled_run[OF st, of evs] by (simp add: settled_def)
  have q': "Click \<notin> set evs \<and> Unload \<notin> set evs \<longrightarrow>
            step Click (run evs u) = startCapture (run evs u)
            \<and> errHidden (step Click (run evs u))
            \<and> errText (step Click (run evs u)) = []"
  proof (intro impI)
    assume a: "Click \<notin> set evs \<and> Unload \<notin> set evs"
    then have "settled m (run evs u)" "\<not> unloaded (run evs u)"
      using settled_run[OF st, of evs] u(8) by simp_all
    from settled_click[OF this]
    show "step Click (run evs u) = startCapture (run evs u)
            \<and> errHidden (step Click (run evs u))
            \<and> errText (step Click (run evs u)) = []"
      by simp
  qed
  show ?thesis
    using u(1-3) en mech k c q q' unfolding u_def m_def by blast
qed

theorem failed_start_ends_stopped_witness:
  "reachable (step Click world0) \<and> \<not> unloaded (step Click world0)
   \<and> start_failure (CaptureSettled Undefined None (Inr 1)) (step Click world0) =
       Some (ErrorObject (Some ''Permission denied or no audio available''))
   \<and> statusText (step (CaptureSettled Undefined None (Inr 1)) (step Click world0)) = ''Stopped''
   \<and> \<not> errHidden (step (CaptureSettled Undefined None (Inr 1)) (step Click world0))
   \<and> errText (step (CaptureSettled Undefined None (Inr 1)) (step Click world0)) =
       ''Permission denied or no audio available''
   \<and> Unload \<noteq> Click
   \<and> \<not> errHidden (step Unload (step (CaptureSettled Undefined None (Inr 1)) (step Click world0)))
   \<and> errHidden (step Click (step (CaptureSettled Undefined None (Inr 1)) (step Click world0)))
   \<and> Click \<notin> set [Resized box600 box300 None, CloseRejected Undefined]
   \<and> Unload \<notin> set [Resized box600 box300 None, CloseRejected Undefined]
   \<and> \<not> errHidden (run [Resized box600 box300 None, CloseRejected Undefined]
                      (step (CaptureSettled Undefined None (Inr 1)) (step Click world0)))
   \<and> errHidden (step Click (run [Resized box600 box300 None, CloseRejected Undefined]
                      (step (CaptureSettled Undefined None (Inr 1)) (step Click world0))))"
proof -
  have r: "reachable (step Click world0)"
    by (intro reachable_step reachable_initial world0_fields)
  have f: "\<not> unloaded (step Click world0)" "awaitingCapture (step Click world0) = 1"
    by (simp_all add: world0_fields toggle_click_def start_fields)
  have s: "start_failure (CaptureSettled Undefined None (Inr 1)) (step Click world0) =
       Some (ErrorObject (Some ''Permission denied or no audio available''))"
    by (simp only: start_failure.simps f) simp
  have m: "message_or (ErrorObject (Some ''Permission denied or no audio available'')) ''Capture failed''
             = ''Permission denied or no audio available''"
    by simp
  have n: "Unload \<noteq> Click"
    "Click \<notin> set [Resized box600 box300 None, CloseRejected Undefined]"
    "Unload \<notin> set [Resized box600 box300 None, CloseRejected Undefined]"
    by simp_all
  show ?thesis
    using failed_start_ends_stopped [OF r f(1) s, of _ _ Unload "[Resized box600 box300 None, CloseRejected Undefined]"] r f(1) s n
    unfolding m by blast
qed

section \<open>Stopping\<close>

lemma stop_dims:
  "specHeight (stopCapture w) = specHeight w"
  "waveWidth (stopCapture w) = waveWidth w"
  "waveHeight (stopCapture w) = waveHeight w"
  by (simp_all add: handler_defs Let_def split: option.splits)

lemma stop_when_stopped:
  assumes "animationId v = None" "stream v = None" "audioContext v = None" "\<not> isCapturing v"
    "statusText v = ''Stopped''" "toggleText v = ''Start''" "\<not> toggleDisabled v"
  shows "stopCapture v = v\<lparr>trace := trace v @ clears v\<rparr>"
  using assms by (cases v) (simp add: handler_defs clears_def Let_def)

text \<open>
  C4: \<^verbatim>\<open>stopCapture\<close> is idempotent. It is a total function, so it raises no fault in
  any state; a second call in a row finds every resource absent and only repeats the
  two \<^verbatim>\<open>clearRect\<close> calls; after a call there is no stream, no audio context and no
  frame handle, the flag is off, the status reads \<open>Stopped\<close> and the button reads
  \<open>Start\<close> and is enabled; in a reachable page no frame is left scheduled. On a page
  that never started it changes the status and the button text, clears the canvases
  and nothing else.
\<close>

theorem stop_idempotent:
  "stopCapture (stopCapture w) = (stopCapture w)\<lparr>trace := trace (stopCapture w) @ clears w\<rparr>
   \<and> stream (stopCapture w) = None \<and> audioContext (stopCapture w) = None
   \<and> animationId (stopCapture w) = None \<and> \<not> isCapturing (stopCapture w)
   \<and> \<not> toggleDisabled (stopCapture w) \<and> statusText (stopCapture w) = ''Stopped''
   \<and> toggleText (stopCapture w) = ''Start''
   \<and> (reachable w \<longrightarrow> rafPending (stopCapture w) = [])
   \<and> (initial w \<longrightarrow>
        stopCapture w = w\<lparr>statusText := ''Stopped'', toggleText := ''Start'', trace := trace w @ clears w\<rparr>)"
proof -
  have "clears (stopCapture w) = clears w"
    by (simp add: clears_def stop_fields stop_dims)
  then have a: "stopCapture (stopCapture w) = (stopCapture w)\<lparr>trace := trace (stopCapture w) @ clears w\<rparr>"
    using stop_when_stopped[of "stopCapture w"] by (simp add: stop_fields)
  have b: "reachable w \<longrightarrow> rafPending (stopCapture w) = []"
    using reachable_inv[of w] by (auto simp add: lifecycle_inv_def stop_pending)
  have c: "initial w \<longrightarrow>
        stopCapture w = w\<lparr>statusText := ''Stopped'', toggleText := ''Start'', trace := trace w @ clears w\<rparr>"
    by (cases w) (simp add: initial_def handler_defs clears_def Let_def)
  show ?thesis using a b c by (simp add: stop_fields)
qed

theorem stop_idempotent_witness:
  "reachable capturing0 \<and> rafPending (stopCapture capturing0) = []
   \<and> initial world0
   \<and> stopCapture world0 = world0\<lparr>statusText := ''Stopped'', toggleText := ''Start'', trace := trace world0 @ clears world0\<rparr>"
  using stop_idempotent [of capturing0] stop_idempotent [of world0] capturing0_fields world0_fields
  by simp

text \<open>
  C5: every execution of \<^verbatim>\<open>stopCapture\<close> does its teardown in this order: it cancels
  the scheduled frame, stops the tracks of the stream, closes the audio context, then
  clears the spectrum canvas and the waveform canvas; a step whose resource is absent
  is skipped. A rejection of \<^verbatim>\<open>close()\<close> is swallowed: its handler changes nothing.
\<close>

theorem stop_order:
  "emitted w (stopCapture w) =
     (case animationId w of Some h \<Rightarrow> [CancelAnimationFrame h] | None \<Rightarrow> [])
     @ (case stream w of Some s \<Rightarrow> map TrackStop s | None \<Rightarrow> [])
     @ (case audioContext w of Some c \<Rightarrow> [CloseContext c] | None \<Rightarrow> [])
     @ [Ctx SpecCanvas (ClearRect (Fin 0) (Fin 0) (specWidth w) (specHeight w)),
        Ctx WaveCanvas (ClearRect (Fin 0) (Fin 0) (waveWidth w) (waveHeight w))]
   \<and> close_rejected e (stopCapture w) = stopCapture w
   \<and> step (CloseRejected e) (stopCapture w) = stopCapture w"
  by (simp add: emitted_append[OF stop_trace] clears_def close_rejected_def)

theorem stop_order_witness:
  "emitted capturing0 (stopCapture capturing0) =
     [CancelAnimationFrame 1, TrackStop 7, CloseContext 1,
      Ctx SpecCanvas (ClearRect (Fin 0) (Fin 0) (Fin 300) (Fin 150)),
      Ctx WaveCanvas (ClearRect (Fin 0) (Fin 0) (Fin 300) (Fin 150))]"
  using stop_order [of capturing0 Undefined] by (simp add: capturing0_fields capturing0_more)

section \<open>Resizing\<close>

lemma step_width:
  assumes "\<And>sb wb dpr. ev \<noteq> Resized sb wb dpr"
  shows "specWidth (step ev w) = specWidth w"
proof (cases ev)
  case Click
  then show ?thesis
    by (simp add: toggle_click_def stop_fields startCapture_def clearError_def setStatus_def
          captureAudio_def emit_def Let_def)
next
  case Unload
  then show ?thesis by (simp add: on_unload_def stop_fields)
next
  case (Resized sb wb dpr)
  then show ?thesis using assms by simp
next
  case (CaptureSettled le s cr)
  then show ?thesis
    by (simp add: startCapture_captured_def catch_fields stop_fields showError_def setStatus_def
          emit_def Let_def split: sum.splits)
next
  case (ResumeSettled r s fd)
  then show ?thesis
    by (simp add: startCapture_resumed_def catch_fields stop_fields showError_def setStatus_def
          draw_fields emit_def emits_def Let_def split: option.splits)
next
  case (AnimationFrame h fd)
  then show ?thesis by (simp add: draw_fields)
next
  case (CloseRejected e)
  then show ?thesis by (simp add: close_rejected_def)
qed

lemma paint_calls: "foldl (paint cv) shown (map (Ctx cv) calls) = shown @ calls"
  by (induction calls arbitrary: shown) simp_all

lemma paint_other: "c \<noteq> cv \<Longrightarrow> foldl (paint cv) shown (map (Ctx c) calls) = shown"
  by (induction calls arbitrary: shown) simp_all

lemma surface_draw:
  "surface SpecCanvas (draw ss fd w) =
     surface SpecCanvas w @ spectrum_calls ss fd (specWidth w) (specHeight w)"
  "surface WaveCanvas (draw ss fd w) =
     surface WaveCanvas w @ waveform_calls ss fd (waveWidth w) (waveHeight w)"
  by (simp_all add: surface_def draw_trace paint_calls paint_other)

lemma surface_resumed:
  assumes "audioContext w = Some c"
  shows "surface SpecCanvas (startCapture_resumed None None fd w) =
     surface SpecCanvas w @ spectrum_calls new_session fd (specWidth w) (specHeight w)"
    "surface WaveCanvas (startCapture_resumed None None fd w) =
     surface WaveCanvas w @ waveform_calls new_session fd (waveWidth w) (waveHeight w)"
  by (simp_all add: surface_def resumed_trace[OF assms] paint_calls paint_other)

lemma surface_resize:
  "surface SpecCanvas (on_resize sb wb dpr w) =
     Scale (dpr_or_1 dpr) (dpr_or_1 dpr)
     # (if isCapturing w then [] else [ClearRect (Fin 0) (Fin 0) (r_width sb) (r_height sb)])"
  "surface WaveCanvas (on_resize sb wb dpr w) =
     Scale (dpr_or_1 dpr) (dpr_or_1 dpr)
     # (if isCapturing w then [] else [ClearRect (Fin 0) (Fin 0) (r_width wb) (r_height wb)])"
  by (simp_all add: surface_def resize_trace)

lemma calls_paint:
  "Fill \<in> set (spectrum_calls ss fd specW specH)"
  "last (spectrum_calls ss fd specW specH) = Stroke"
  "last (waveform_calls ss fd waveW waveH) = Stroke"
  "spectrum_calls ss fd specW specH \<noteq> []"
  "waveform_calls ss fd waveW waveH \<noteq> []"
  by (simp_all add: spectrum_calls_def waveform_calls_def Let_def)

lemma bucket_x:
  assumes "real (Suc k) < BUCKETS (freqLen new_session)"
  shows "point_x new_session (Fin W) (Suc k) =
           Fin (log 10 (real (Suc k * 8) + 1) / log 10 (real (1024::nat)) * W)"
    and "0 < log 10 (real (Suc k * 8) + 1) / log 10 (real (1024::nat))"
    and "log 10 (real (Suc k * 8) + 1) / log 10 (real (1024::nat)) \<le> 1"
proof -
  have l: "lw new_session = logWidth 1024"
    by (simp add: new_session_def frequencyBinCount_def fftSize_def)
  show "point_x new_session (Fin W) (Suc k) =
           Fin (log 10 (real (Suc k * 8) + 1) / log 10 (real (1024::nat)) * W)"
    unfolding point_x_def l BINS_PER_BUCKET_def by (simp only: nat.simps if_False) (rule logX_Fin, simp)
  have p: "0 < log 10 (real (1024::nat))" by (rule log10_pos) simp
  have k: "real (Suc k * 8) + 1 \<le> real (1024::nat)"
    using assms by (simp add: BUCKETS_def BINS_PER_BUCKET_def new_session_def frequencyBinCount_def fftSize_def)
  have "0 < log 10 (real (Suc k * 8) + 1)" by simp
  then show "0 < log 10 (real (Suc k * 8) + 1) / log 10 (real (1024::nat))"
    using p by simp
  have "log 10 (real (Suc k * 8) + 1) \<le> log 10 (real (1024::nat))"
    using k by (subst log_le_cancel_iff) simp_all
  then show "log 10 (real (Suc k * 8) + 1) / log 10 (real (1024::nat)) \<le> 1"
    using p by (simp add: divide_le_eq)
qed

lemma bucket_x_width:
  assumes "real (Suc k) < BUCKETS (freqLen new_session)" "0 < W"
  shows "js_le (point_x new_session (Fin W) (Suc k)) (Fin W)"
    and "\<not> js_le (point_x new_session (Fin W) (Suc k)) (Fin 0)"
    and "point_x new_session (Fin (2 * W)) (Suc k) = js_mul (Fin 2) (point_x new_session (Fin W) (Suc k))"
proof -
  define c where "c = log 10 (real (Suc k * 8) + 1) / log 10 (real (1024::nat))"
  have c: "0 < c" "c \<le> 1" unfolding c_def using bucket_x(2,3)[OF assms(1)] by simp_all
  have x: "point_x new_session (Fin V) (Suc k) = Fin (c * V)" for V
    unfolding c_def by (rule bucket_x(1)[OF assms(1)])
  have "c * W \<le> 1 * W" using c(2) assms(2) by (intro mult_right_mono) simp_all
  then show "js_le (point_x new_session (Fin W) (Suc k)) (Fin W)" unfolding x by simp
  have "0 < c * W" using c(1) assms(2) by simp
  then show "\<not> js_le (point_x new_session (Fin W) (Suc k)) (Fin 0)" unfolding x by simp
  show "point_x new_session (Fin (2 * W)) (Suc k) = js_mul (Fin 2) (point_x new_session (Fin W) (Suc k))"
    unfolding x by simp
qed

text \<open>
  C9, as the code has it. The resize handler does not call \<^verbatim>\<open>clearCanvases\<close> while
  capturing, but it assigns the width and the height of both canvases, and that clears
  them: on the canvases of \<open>capturing0\<close> the last thing painted is the frame (its
  fill, and the stroke that ends it); after the resize the frame is gone and each
  canvas holds only its new scale.
\<close>

theorem resize_blanks_counterexample:
  "reachable capturing0 \<and> isCapturing capturing0
   \<and> Fill \<in> set (surface SpecCanvas capturing0)
   \<and> last (surface SpecCanvas capturing0) = Stroke
   \<and> last (surface WaveCanvas capturing0) = Stroke
   \<and> surface SpecCanvas (step (Resized box600 box300 (Some (Fin 2))) capturing0) = [Scale (Fin 2) (Fin 2)]
   \<and> surface WaveCanvas (step (Resized box600 box300 (Some (Fin 2))) capturing0) = [Scale (Fin 2) (Fin 2)]"
proof -
  have c: "audioContext (granted0\<lparr>awaitingResume := 0\<rparr>) = Some 1"
    by (simp add: granted0_fields)
  have "Fill \<in> set (surface SpecCanvas capturing0)"
    "last (surface SpecCanvas capturing0) = Stroke"
    "last (surface WaveCanvas capturing0) = Stroke"
    by (simp_all add: capturing0_def granted0_fields surface_resumed[OF c] calls_paint)
  then show ?thesis
    using capturing0_fields by (simp add: surface_resize)
qed

text \<open>
  C9, amended: the resize handler, run while \<^verbatim>\<open>isCapturing\<close> is set, cancels nothing of
  the capture: the stream, the audio context, the frame handle, the scheduled frames
  and the flag stay as they are, and it calls no \<^verbatim>\<open>clearRect\<close>. It sets the backing
  size and the scale of both canvases and the four logical dimensions, and setting the
  backing size blanks both surfaces until the next frame paints them again. A frame
  drawn afterwards is computed from the new dimensions: each curve of the spectrum
  joins raw points whose \<open>x\<close> is \<open>logX\<close> at the new width, which is positive, at most
  the width, and doubles when the width doubles; the width stays the new one through
  every event but another resize.
\<close>

theorem resize_keeps_capture:
  assumes "isCapturing w"
  shows "stream (on_resize sb wb dpr w) = stream w
       \<and> audioContext (on_resize sb wb dpr w) = audioContext w
       \<and> animationId (on_resize sb wb dpr w) = animationId w
       \<and> rafPending (on_resize sb wb dpr w) = rafPending w
       \<and> isCapturing (on_resize sb wb dpr w)
       \<and> emitted w (on_resize sb wb dpr w) =
           [SetCanvasWidth SpecCanvas (js_mul (r_width sb) (dpr_or_1 dpr)),
            SetCanvasHeight SpecCanvas (js_mul (r_height sb) (dpr_or_1 dpr)),
            Ctx SpecCanvas (Scale (dpr_or_1 dpr) (dpr_or_1 dpr)),
            SetCanvasWidth WaveCanvas (js_mul (r_width wb) (dpr_or_1 dpr)),
            SetCanvasHeight WaveCanvas (js_mul (r_height wb) (dpr_or_1 dpr)),
            Ctx WaveCanvas (Scale (dpr_or_1 dpr) (dpr_or_1 dpr))]
       \<and> specWidth (on_resize sb wb dpr w) = r_width sb
       \<and> specHeight (on_resize sb wb dpr w) = r_height sb
       \<and> waveWidth (on_resize sb wb dpr w) = r_width wb
       \<and> waveHeight (on_resize sb wb dpr w) = r_height wb
       \<and> emitted (on_resize sb wb dpr w) (draw ss fd (on_resize sb wb dpr w)) =
           DrawEntered True
           # map (Ctx SpecCanvas) (spectrum_calls ss fd (r_width sb) (r_height sb))
           @ map (Ctx WaveCanvas) (waveform_calls ss fd (r_width wb) (r_height wb))
           @ [RequestAnimationFrame (rafCounter w + 1)]
       \<and> (real (Suc k) < BUCKETS (freqLen ss) \<longrightarrow>
            spectrum_calls ss fd (r_width sb) (r_height sb) ! (k + 3) =
              QuadraticCurveTo (point_x ss (r_width sb) k) (point_y ss fd (r_height sb) k)
                (js_div (js_add (point_x ss (r_width sb) k) (point_x ss (r_width sb) (Suc k))) (Fin 2))
                (js_div (js_add (point_y ss fd (r_height sb) k) (point_y ss fd (r_height sb) (Suc k))) (Fin 2))
            \<and> point_x ss (r_width sb) (Suc k) = logX (lw ss) (r_width sb) (Suc k * BINS_PER_BUCKET))
       \<and> ((\<forall>sb' wb' dpr'. ev \<noteq> Resized sb' wb' dpr') \<longrightarrow>
            specWidth (step ev (on_resize sb wb dpr w)) = r_width sb)
       \<and> surface SpecCanvas (on_resize sb wb dpr w) = [Scale (dpr_or_1 dpr) (dpr_or_1 dpr)]
       \<and> surface WaveCanvas (on_resize sb wb dpr w) = [Scale (dpr_or_1 dpr) (dpr_or_1 dpr)]
       \<and> surface SpecCanvas (draw ss fd (on_resize sb wb dpr w)) =
           Scale (dpr_or_1 dpr) (dpr_or_1 dpr) # spectrum_calls ss fd (r_width sb) (r_height sb)
       \<and> surface WaveCanvas (draw ss fd (on_resize sb wb dpr w)) =
           Scale (dpr_or_1 dpr) (dpr_or_1 dpr) # waveform_calls ss fd (r_width wb) (r_height wb)
       \<and> (real (Suc k) < BUCKETS (freqLen new_session) \<and> 0 < W \<longrightarrow>
            js_le (point_x new_session (Fin W) (Suc k)) (Fin W)
            \<and> \<not> js_le (point_x new_session (Fin W) (Suc k)) (Fin 0)
            \<and> point_x new_session (Fin (2 * W)) (Suc k) =
                js_mul (Fin 2) (point_x new_session (Fin W) (Suc k)))"
proof -
  have e: "emitted w (on_resize sb wb dpr w) =
           [SetCanvasWidth SpecCanvas (js_mul (r_width sb) (dpr_or_1 dpr)),
            SetCanvasHeight SpecCanvas (js_mul (r_height sb) (dpr_or_1 dpr)),
            Ctx SpecCanvas (Scale (dpr_or_1 dpr) (dpr_or_1 dpr)),
            SetCanvasWidth WaveCanvas (js_mul (r_width wb) (dpr_or_1 dpr)),
            SetCanvasHeight WaveCanvas (js_mul (r_height wb) (dpr_or_1 dpr)),
            Ctx WaveCanvas (Scale (dpr_or_1 dpr) (dpr_or_1 dpr))]"
    using assms by (simp add: emitted_def resize_trace)
  have d: "emitted (on_resize sb wb dpr w) (draw ss fd (on_resize sb wb dpr w)) =
           DrawEntered True
           # map (Ctx SpecCanvas) (spectrum_calls ss fd (r_width sb) (r_height sb))
           @ map (Ctx WaveCanvas) (waveform_calls ss fd (r_width wb) (r_height wb))
           @ [RequestAnimationFrame (rafCounter w + 1)]"
    using assms by (simp add: emitted_def draw_trace resize_fields)
  have x: "real (Suc k) < BUCKETS (freqLen ss) \<longrightarrow>
            spectrum_calls ss fd (r_width sb) (r_height sb) ! (k + 3) =
              QuadraticCurveTo (point_x ss (r_width sb) k) (point_y ss fd (r_height sb) k)
                (js_div (js_add (point_x ss (r_width sb) k) (point_x ss (r_width sb) (Suc k))) (Fin 2))
                (js_div (js_add (point_y ss fd (r_height sb) k) (point_y ss fd (r_height sb) (Suc k))) (Fin 2))
            \<and> point_x ss (r_width sb) (Suc k) = logX (lw ss) (r_width sb) (Suc k * BINS_PER_BUCKET)"
    using spectrum_calls_nth[of k ss fd "r_width sb" "r_height sb"] by (simp add: point_x_def)
  have s: "(\<forall>sb' wb' dpr'. ev \<noteq> Resized sb' wb' dpr') \<longrightarrow>
            specWidth (step ev (on_resize sb wb dpr w)) = r_width sb"
    using step_width[of ev "on_resize sb wb dpr w"] by (simp add: resize_fields)
  have old: "stream (on_resize sb wb dpr w) = stream w
       \<and> audioContext (on_resize sb wb dpr w) = audioContext w
       \<and> animationId (on_resize sb wb dpr w) = animationId w
       \<and> rafPending (on_resize sb wb dpr w) = rafPending w
       \<and> isCapturing (on_resize sb wb dpr w)
       \<and> specWidth (on_resize sb wb dpr w) = r_width sb
       \<and> specHeight (on_resize sb wb dpr w) = r_height sb
       \<and> waveWidth (on_resize sb wb dpr w) = r_width wb
       \<and> waveHeight (on_resize sb wb dpr w) = r_height wb"
    using assms by (simp add: resize_fields)
  have b: "surface SpecCanvas (on_resize sb wb dpr w) = [Scale (dpr_or_1 dpr) (dpr_or_1 dpr)]"
    "surface WaveCanvas (on_resize sb wb dpr w) = [Scale (dpr_or_1 dpr) (dpr_or_1 dpr)]"
    using assms by (simp_all add: surface_resize)
  have r: "surface SpecCanvas (draw ss fd (on_resize sb wb dpr w)) =
           Scale (dpr_or_1 dpr) (dpr_or_1 dpr) # spectrum_calls ss fd (r_width sb) (r_height sb)"
    "surface WaveCanvas (draw ss fd (on_resize sb wb dpr w)) =
           Scale (dpr_or_1 dpr) (dpr_or_1 dpr) # waveform_calls ss fd (r_width wb) (r_height wb)"
    by (simp_all add: surface_draw b resize_fields)
  have p: "real (Suc k) < BUCKETS (freqLen new_session) \<and> 0 < W \<longrightarrow>
            js_le (point_x new_session (Fin W) (Suc k)) (Fin W)
            \<and> \<not> js_le (point_x new_session (Fin W) (Suc k)) (Fin 0)
            \<and> point_x new_session (Fin (2 * W)) (Suc k) =
                js_mul (Fin 2) (point_x new_session (Fin W) (Suc k))"
    using bucket_x_width[of k W] by blast
  show ?thesis
    using old e d x s b r p by blast
qed

theorem resize_keeps_capture_witness:
  "isCapturing capturing0 \<and> real (Suc 0) < BUCKETS (freqLen new_session) \<and> (0::real) < 300
   \<and> (\<forall>sb' wb' dpr'. Click \<noteq> Resized sb' wb' dpr')
   \<and> rafPending (on_resize box600 box300 (Some (Fin 2)) capturing0) = rafPending capturing0
   \<and> isCapturing (on_resize box600 box300 (Some (Fin 2)) capturing0)
   \<and> specWidth (on_resize box600 box300 (Some (Fin 2)) capturing0) = r_width box600
   \<and> surface SpecCanvas (on_resize box600 box300 (Some (Fin 2)) capturing0) =
       [Scale (dpr_or_1 (Some (Fin 2))) (dpr_or_1 (Some (Fin 2)))]
   \<and> point_x new_session (Fin (2 * 300)) (Suc 0) =
       js_mul (Fin 2) (point_x new_session (Fin 300) (Suc 0))
   \<and> \<not> js_le (point_x new_session (Fin 300) (Suc 0)) (Fin 0)
   \<and> specWidth (step Click (on_resize box600 box300 (Some (Fin 2)) capturing0)) = r_width box600"
proof -
  have b: "real (Suc 0) < BUCKETS (freqLen new_session)"
    by (simp add: BUCKETS_def BINS_PER_BUCKET_def new_session_def frequencyBinCount_def fftSize_def)
  have n: "\<forall>sb' wb' dpr'. Click \<noteq> Resized sb' wb' dpr'" "(0::real) < 300"
    by simp_all
  show ?thesis
    using resize_keeps_capture [OF capturing0_fields(2), of box600 box300 "Some (Fin 2)" new_session two_tone 0 Click 300]
      capturing0_fields(2) b n
    by blast
qed

end
